theory Spec2Isabelle
  imports Complex_Main
begin

unbundle bit_operations_syntax

section \<open>JavaScript numbers and bitwise operators\<close>

text \<open>
  Stroke codes and coordinates are JavaScript numbers holding integers; they are modelled
  as \<^typ>\<open>int\<close>. The bitwise operators of JavaScript first convert their operands to
  32-bit two's complement (ToInt32), which for an integer is \<open>signed_take_bit 31\<close>;
  \<open>>>\<close> is the arithmetic shift by the count modulo 32.
\<close>

definition toInt32 :: "int \<Rightarrow> int" where
  "toInt32 n = signed_take_bit 31 n"

definition js_shr :: "int \<Rightarrow> int \<Rightarrow> int" where
  "js_shr a k = drop_bit (nat (k mod 32)) (toInt32 a)"

definition js_and :: "int \<Rightarrow> int \<Rightarrow> int" where
  "js_and a b = toInt32 (toInt32 a AND toInt32 b)"

text \<open>\<open>Boolean(n)\<close> on an integer number: false exactly for 0.\<close>

definition Boolean :: "int \<Rightarrow> bool" where
  "Boolean n = (n \<noteq> 0)"

section \<open>cdcRomFunctions.js\<close>

text \<open>
  A decoded point is the array \<open>[x, y, beam]\<close>; the five bits of a stroke code are the
  object \<open>{V1, V2, H1, H2, U}\<close>.
\<close>

type_synonym VectorPoint = "int \<times> int \<times> bool"

record Flags =
  V1 :: bool
  V2 :: bool
  H1 :: bool
  H2 :: bool
  U :: bool

definition decodeBinary :: "int \<Rightarrow> Flags" where
  "decodeBinary binary =
     \<lparr> V1 = Boolean (js_and (js_shr binary 4) 1),
       V2 = Boolean (js_and (js_shr binary 3) 1),
       H1 = Boolean (js_and (js_shr binary 2) 1),
       H2 = Boolean (js_and (js_shr binary 1) 1),
       U = Boolean (js_and binary 1) \<rparr>"

text \<open>The local variables of \<open>binaryToVector\<close> that live across loop iterations.\<close>

record DecodeState =
  currentX :: int
  currentY :: int
  beamOn :: bool
  horizontalDirection :: int
  verticalDirection :: int

definition initialState :: DecodeState where
  "initialState =
     \<lparr> currentX = 0, currentY = 0, beamOn = False,
       horizontalDirection = 1, verticalDirection = 1 \<rparr>"

text \<open>The three statements of the loop body, in the order of the source.\<close>

definition verticalStep :: "Flags \<Rightarrow> DecodeState \<Rightarrow> DecodeState" where
  "verticalStep f s =
     (if V1 f \<and> V2 f then s\<lparr>verticalDirection := - verticalDirection s\<rparr>
      else if V1 f then s\<lparr>currentY := currentY s + 1 * verticalDirection s\<rparr>
      else if V2 f then s\<lparr>currentY := currentY s + 2 * verticalDirection s\<rparr>
      else s)"

definition horizontalStep :: "Flags \<Rightarrow> DecodeState \<Rightarrow> DecodeState" where
  "horizontalStep f s =
     (if H1 f \<and> H2 f then s\<lparr>horizontalDirection := - horizontalDirection s\<rparr>
      else if H1 f then s\<lparr>currentX := currentX s + 1 * horizontalDirection s\<rparr>
      else if H2 f then s\<lparr>currentX := currentX s + 2 * horizontalDirection s\<rparr>
      else s)"

definition beamStep :: "Flags \<Rightarrow> DecodeState \<Rightarrow> DecodeState" where
  "beamStep f s = (if U f then s\<lparr>beamOn := \<not> beamOn s\<rparr> else s)"

definition strokeStep :: "int \<Rightarrow> DecodeState \<Rightarrow> DecodeState" where
  "strokeStep binary s =
     (let f = decodeBinary binary
      in beamStep f (horizontalStep f (verticalStep f s)))"

definition pointOf :: "DecodeState \<Rightarrow> VectorPoint" where
  "pointOf s = (currentX s, currentY s, beamOn s)"

text \<open>Both directions are \<open>+1\<close> or \<open>-1\<close>: the invariant of the decode loop.\<close>

definition directionsOk :: "DecodeState \<Rightarrow> bool" where
  "directionsOk s = (\<bar>horizontalDirection s\<bar> = 1 \<and> \<bar>verticalDirection s\<bar> = 1)"

text \<open>
  The \<open>for\<close> loop over \<open>binaryData\<close>: each iteration updates the state and pushes the
  current point onto \<open>vectorData\<close>.
\<close>

fun decodeLoop :: "DecodeState \<Rightarrow> VectorPoint list \<Rightarrow> int list \<Rightarrow> VectorPoint list" where
  "decodeLoop s vectorData [] = vectorData"
| "decodeLoop s vectorData (binary # rest) =
     (let s' = strokeStep binary s
      in decodeLoop s' (vectorData @ [pointOf s']) rest)"

definition binaryToVector :: "int list \<Rightarrow> VectorPoint list" where
  "binaryToVector binaryData =
     (if length binaryData = 0 then [] else decodeLoop initialState [] binaryData)"

text \<open>
  The ROM table \<open>cdcRomBinary\<close> (module \<open>cdcRomBinary.js\<close>) is a parameter: an object
  whose keys are single characters, as the documentation of \<open>getCharacterBinary\<close> says,
  and whose values are arrays of stroke codes. An array is truthy, so \<open>a || b\<close> yields
  \<open>b\<close> exactly when the key is absent (\<open>undefined\<close>); \<open>None\<close> is \<open>undefined\<close>.
\<close>

type_synonym RomTable = "char \<rightharpoonup> int list"

definition getCharacterBinary :: "RomTable \<Rightarrow> char \<Rightarrow> int list option" where
  "getCharacterBinary cdcRomBinary c =
     (case cdcRomBinary c of Some binaryData \<Rightarrow> Some binaryData
      | None \<Rightarrow> cdcRomBinary (CHR '' ''))"

text \<open>
  \<open>getCharacterVector\<close> passes the lookup result on; \<open>binaryToVector\<close> answers
  \<open>undefined\<close> with the empty array (its \<open>!binaryData\<close> guard).
\<close>

definition getCharacterVector :: "RomTable \<Rightarrow> char \<Rightarrow> VectorPoint list" where
  "getCharacterVector cdcRomBinary c =
     (case getCharacterBinary cdcRomBinary c of None \<Rightarrow> []
      | Some binaryData \<Rightarrow> binaryToVector binaryData)"

section \<open>chargenTriplets.js\<close>

text \<open>
  A triplet is the array \<open>[x, y, intensity]\<close>. The intensity is a number; the code
  compares it with 0 and never restricts it to 0 and 1.
\<close>

type_synonym Triplet = "int \<times> int \<times> int"

definition vectorToTriplets :: "VectorPoint list \<Rightarrow> Triplet list" where
  "vectorToTriplets vectorData =
     (if length vectorData = 0 then []
      else map (\<lambda>(x, y, beamOn).
                  let beamIntensity = (if beamOn then 1 else 0)
                  in (x, y, beamIntensity)) vectorData)"

text \<open>
  \<open>findDwellPoints\<close>: the loop \<open>for (let i = 1; i < triplets.length; i++)\<close>. The index
  starts at 1, so \<open>i - 1\<close> is always a valid index.
\<close>

definition isDwell :: "Triplet \<Rightarrow> Triplet \<Rightarrow> bool" where
  "isDwell cur prev =
     (case cur of (x, y, intensity) \<Rightarrow>
      case prev of (prevX, prevY, prevIntensity) \<Rightarrow>
        x = prevX \<and> y = prevY \<and> intensity > 0 \<and> prevIntensity > 0)"

function findDwellLoop :: "Triplet list \<Rightarrow> nat \<Rightarrow> nat list \<Rightarrow> nat list" where
  "findDwellLoop triplets i dwells =
     (if i < length triplets
      then findDwellLoop triplets (i + 1)
             (if isDwell (triplets ! i) (triplets ! (i - 1)) then dwells @ [i] else dwells)
      else dwells)"
  by pat_completeness auto
termination
  by (relation "measure (\<lambda>(triplets, i, dwells). length triplets - i)") auto

declare findDwellLoop.simps [simp del]

definition findDwellPoints :: "Triplet list \<Rightarrow> nat list" where
  "findDwellPoints triplets = findDwellLoop triplets 1 []"

section \<open>chargenRenderer.js\<close>

text \<open>
  The canvas context is a state: the current fill and stroke styles, the line width, the
  current path, and the list of everything painted so far, in order. \<open>fillRect\<close> paints
  with the fill style of the moment of the call.
\<close>

datatype PathCmd = MoveTo int int | LineTo int int

datatype Painted =
    FillRect string int int int int
  | Stroke string real "PathCmd list"

record Ctx =
  fillStyle :: string
  strokeStyle :: string
  lineWidth :: real
  path :: "PathCmd list"
  painted :: "Painted list"

definition fillRect :: "int \<Rightarrow> int \<Rightarrow> int \<Rightarrow> int \<Rightarrow> Ctx \<Rightarrow> Ctx" where
  "fillRect x y w h ctx = ctx\<lparr>painted := painted ctx @ [FillRect (fillStyle ctx) x y w h]\<rparr>"

definition beginPath :: "Ctx \<Rightarrow> Ctx" where
  "beginPath ctx = ctx\<lparr>path := []\<rparr>"

definition moveTo :: "int \<Rightarrow> int \<Rightarrow> Ctx \<Rightarrow> Ctx" where
  "moveTo x y ctx = ctx\<lparr>path := path ctx @ [MoveTo x y]\<rparr>"

definition lineTo :: "int \<Rightarrow> int \<Rightarrow> Ctx \<Rightarrow> Ctx" where
  "lineTo x y ctx = ctx\<lparr>path := path ctx @ [LineTo x y]\<rparr>"

definition stroke :: "Ctx \<Rightarrow> Ctx" where
  "stroke ctx =
     ctx\<lparr>painted := painted ctx @ [Stroke (strokeStyle ctx) (lineWidth ctx) (path ctx)]\<rparr>"

text \<open>
  The \<open>options\<close> object: a property that is absent (\<open>None\<close>) takes the default of the
  destructuring pattern.
\<close>

record RenderOptions =
  pixelColor :: "string option"
  backgroundColor :: "string option"
  beamWidth :: "int option"
  showPixelGrid :: "bool option"
  gridColor :: "string option"

definition noOptions :: RenderOptions where
  "noOptions =
     \<lparr> pixelColor = None, backgroundColor = None, beamWidth = None,
       showPixelGrid = None, gridColor = None \<rparr>"

definition orDefault :: "'a option \<Rightarrow> 'a \<Rightarrow> 'a" where
  "orDefault v d = (case v of None \<Rightarrow> d | Some a \<Rightarrow> a)"

text \<open>
  \<open>drawPixelLine\<close>: the \<open>while (true)\<close> loop paints, leaves when the end point is
  reached, and otherwise steps. A loop that never leaves has no result (\<open>None\<close>).
\<close>

partial_function (option) drawPixelLineLoop ::
  "int \<Rightarrow> int \<Rightarrow> int \<Rightarrow> int \<Rightarrow> int \<Rightarrow> int \<Rightarrow> int \<Rightarrow> int \<Rightarrow> int \<Rightarrow> Ctx \<Rightarrow> Ctx option"
where
  "drawPixelLineLoop x1 y1 dx dy sx sy x y err ctx =
     (let ctx1 = fillRect x (6 - y) 1 1 ctx
      in if x = x1 \<and> y = y1 then Some ctx1
         else let e2 = 2 * err;
                  err1 = (if e2 > - dy then err - dy else err);
                  xn = (if e2 > - dy then x + sx else x);
                  err2 = (if e2 < dx then err1 + dx else err1);
                  yn = (if e2 < dx then y + sy else y)
              in drawPixelLineLoop x1 y1 dx dy sx sy xn yn err2 ctx1)"

declare drawPixelLineLoop.simps [code]

definition drawPixelLine :: "Ctx \<Rightarrow> int \<Rightarrow> int \<Rightarrow> int \<Rightarrow> int \<Rightarrow> Ctx option" where
  "drawPixelLine ctx x0 y0 x1 y1 =
     (let dx = \<bar>x1 - x0\<bar>;
          dy = \<bar>y1 - y0\<bar>;
          sx = (if x0 < x1 then 1 else - 1);
          sy = (if y0 < y1 then 1 else - 1);
          err = dx - dy
      in drawPixelLineLoop x1 y1 dx dy sx sy x0 y0 err ctx)"

text \<open>\<open>renderTrueSizeBitmap\<close>: the loop over the triplets, then the function.\<close>

fun trueSizeStrokes :: "int \<Rightarrow> int \<Rightarrow> Triplet list \<Rightarrow> Ctx \<Rightarrow> Ctx option" where
  "trueSizeStrokes prevX prevY [] ctx = Some ctx"
| "trueSizeStrokes prevX prevY ((x, y, intensity) # rest) ctx =
     (if intensity > 0
      then (case drawPixelLine ctx prevX prevY x y of
              None \<Rightarrow> None
            | Some ctx' \<Rightarrow> trueSizeStrokes x y rest ctx')
      else trueSizeStrokes x y rest ctx)"

definition renderTrueSizeBitmap :: "Ctx \<Rightarrow> Triplet list \<Rightarrow> RenderOptions \<Rightarrow> Ctx option" where
  "renderTrueSizeBitmap ctx triplets options =
     (let pixelColor' = orDefault (pixelColor options) ''#000000'';
          backgroundColor' = orDefault (backgroundColor options) ''#ffffff'';
          ctx1 = fillRect 0 0 7 7 (ctx\<lparr>fillStyle := backgroundColor'\<rparr>);
          ctx2 = ctx1\<lparr>fillStyle := pixelColor'\<rparr>
      in trueSizeStrokes 0 0 triplets ctx2)"

text \<open>\<open>drawCDCBitmapLine\<close>: the same walk, painting \<open>beamWidth\<close> squares with the
  scaled vertical flip.\<close>

partial_function (option) drawCDCBitmapLineLoop ::
  "int \<Rightarrow> int \<Rightarrow> int \<Rightarrow> int \<Rightarrow> int \<Rightarrow> int \<Rightarrow> int \<Rightarrow> int \<Rightarrow> int \<Rightarrow> int \<Rightarrow> int \<Rightarrow> Ctx
   \<Rightarrow> Ctx option"
where
  "drawCDCBitmapLineLoop x1 y1 beamWidth' scale dx dy sx sy x y err ctx =
     (let pixelY = (7 * scale - 1) - y;
          ctx1 = fillRect x pixelY beamWidth' beamWidth' ctx
      in if x = x1 \<and> y = y1 then Some ctx1
         else let e2 = 2 * err;
                  err1 = (if e2 > - dy then err - dy else err);
                  xn = (if e2 > - dy then x + sx else x);
                  err2 = (if e2 < dx then err1 + dx else err1);
                  yn = (if e2 < dx then y + sy else y)
              in drawCDCBitmapLineLoop x1 y1 beamWidth' scale dx dy sx sy xn yn err2 ctx1)"

declare drawCDCBitmapLineLoop.simps [code]

definition drawCDCBitmapLine ::
  "Ctx \<Rightarrow> int \<Rightarrow> int \<Rightarrow> int \<Rightarrow> int \<Rightarrow> int \<Rightarrow> int \<Rightarrow> Ctx option" where
  "drawCDCBitmapLine ctx x0 y0 x1 y1 beamWidth' scale =
     (let dx = \<bar>x1 - x0\<bar>;
          dy = \<bar>y1 - y0\<bar>;
          sx = (if x0 < x1 then 1 else - 1);
          sy = (if y0 < y1 then 1 else - 1);
          err = dx - dy
      in drawCDCBitmapLineLoop x1 y1 beamWidth' scale dx dy sx sy x0 y0 err ctx)"

text \<open>
  \<open>renderCDCScaledBitmap\<close>: the grid loop \<open>for (let i = 0; i <= resolution; i++)\<close>,
  the loop over the triplets, then the function.
\<close>

definition gridLines :: "int \<Rightarrow> int \<Rightarrow> Ctx \<Rightarrow> Ctx" where
  "gridLines resolution i ctx =
     stroke (lineTo resolution i (moveTo 0 i (beginPath
       (stroke (lineTo i resolution (moveTo i 0 (beginPath ctx)))))))"

fun cdcStrokes :: "int \<Rightarrow> int \<Rightarrow> int \<Rightarrow> int \<Rightarrow> Triplet list \<Rightarrow> Ctx \<Rightarrow> Ctx option" where
  "cdcStrokes scale beamWidth' prevX prevY [] ctx = Some ctx"
| "cdcStrokes scale beamWidth' prevX prevY ((x, y, intensity) # rest) ctx =
     (if intensity > 0
      then (let scaledX0 = prevX * scale;
                scaledY0 = prevY * scale;
                scaledX1 = x * scale;
                scaledY1 = y * scale
            in case drawCDCBitmapLine ctx scaledX0 scaledY0 scaledX1 scaledY1 beamWidth' scale of
                 None \<Rightarrow> None
               | Some ctx' \<Rightarrow> cdcStrokes scale beamWidth' x y rest ctx')
      else cdcStrokes scale beamWidth' x y rest ctx)"

definition renderCDCScaledBitmap ::
  "Ctx \<Rightarrow> Triplet list \<Rightarrow> int \<Rightarrow> RenderOptions \<Rightarrow> Ctx option" where
  "renderCDCScaledBitmap ctx triplets scale options =
     (let pixelColor' = orDefault (pixelColor options) ''#000000'';
          backgroundColor' = orDefault (backgroundColor options) ''#ffffff'';
          beamWidth' = orDefault (beamWidth options) 1;
          showPixelGrid' = orDefault (showPixelGrid options) False;
          gridColor' = orDefault (gridColor options) ''#f0f0f0'';
          resolution = 7 * scale;
          ctx1 = fillRect 0 0 resolution resolution (ctx\<lparr>fillStyle := backgroundColor'\<rparr>);
          ctx2 = (if showPixelGrid'
                  then foldl (\<lambda>c i. gridLines resolution i c)
                         (ctx1\<lparr>strokeStyle := gridColor', lineWidth := 0.5\<rparr>) [0..resolution]
                  else ctx1);
          ctx3 = ctx2\<lparr>fillStyle := pixelColor'\<rparr>
      in cdcStrokes scale beamWidth' 0 0 triplets ctx3)"

section \<open>Auxiliary notions used to state the properties\<close>

text \<open>The position of a triplet, a point scaled, and the bounding box of a segment.\<close>

definition position :: "Triplet \<Rightarrow> int \<times> int" where
  "position t = (fst t, fst (snd t))"

definition scaledPoint :: "int \<Rightarrow> int \<times> int \<Rightarrow> int \<times> int" where
  "scaledPoint scale p = (fst p * scale, snd p * scale)"

definition between :: "int \<Rightarrow> int \<Rightarrow> int \<Rightarrow> bool" where
  "between a b v = (min a b \<le> v \<and> v \<le> max a b)"

definition inBox :: "int \<times> int \<Rightarrow> int \<times> int \<Rightarrow> int \<times> int \<Rightarrow> bool" where
  "inBox a b p = (between (fst a) (fst b) (fst p) \<and> between (snd a) (snd b) (snd p))"

text \<open>
  The position from which the segment to the triplet at index \<open>i\<close> starts: the previous
  triplet's position, and the implicit origin for the first triplet (\<open>prevX\<close>, \<open>prevY\<close>
  in the loops over triplets).
\<close>

definition predecessor :: "Triplet list \<Rightarrow> nat \<Rightarrow> int \<times> int" where
  "predecessor triplets i =
     (if i = 0 then (0, 0)
      else (fst (triplets ! (i - 1)), fst (snd (triplets ! (i - 1)))))"

text \<open>What \<open>drawCDCBitmapLine\<close> paints for the line point \<open>p\<close>.\<close>

definition cdcPixel :: "string \<Rightarrow> int \<Rightarrow> int \<Rightarrow> int \<times> int \<Rightarrow> Painted" where
  "cdcPixel style w scale p = FillRect style (fst p) ((7 * scale - 1) - snd p) w w"

text \<open>
  The line between two pixels, stated without the loop: one pixel for each unit along the
  longer axis, and on the shorter axis the integer nearest to the ideal line, a tie going
  to the side of the start point. \<open>nearest p q\<close> is that integer for the fraction
  \<open>p / q\<close>.
\<close>

definition nearest :: "int \<Rightarrow> int \<Rightarrow> int" where
  "nearest p q = (if q = 0 then 0 else (2 * p + q - 1) div (2 * q))"

definition bresenhamLine :: "int \<Rightarrow> int \<Rightarrow> int \<Rightarrow> int \<Rightarrow> (int \<times> int) list" where
  "bresenhamLine x0 y0 x1 y1 =
     (let dx = \<bar>x1 - x0\<bar>;
          dy = \<bar>y1 - y0\<bar>;
          sx = (if x0 < x1 then 1 else - 1);
          sy = (if y0 < y1 then 1 else - 1)
      in if dy \<le> dx
         then map (\<lambda>k. (x0 + sx * k, y0 + sy * nearest (k * dy) dx)) [0..dx]
         else map (\<lambda>k. (x0 + sx * nearest (k * dx) dy, y0 + sy * k)) [0..dy])"

text \<open>
  The segments that are drawn: each triplet with intensity greater than 0, paired with the
  position before it, the first one with \<open>origin\<close>.
\<close>

definition beamOnSegments ::
  "int \<times> int \<Rightarrow> Triplet list \<Rightarrow> ((int \<times> int) \<times> (int \<times> int)) list" where
  "beamOnSegments origin ts =
     map (\<lambda>(a, t). (a, position t))
       (filter (\<lambda>(a, t). 0 < snd (snd t)) (zip (origin # map position ts) ts))"

text \<open>
  The stroke pixels of CDC-scaled rendering with default options: for each drawn segment,
  in order, the line between its end points multiplied by \<open>scale\<close>, each line pixel
  \<open>(x, y)\<close> as a 1 by 1 rectangle at \<open>(x, (7 * scale - 1) - y)\<close>.
\<close>

definition cdcStrokePixels :: "int \<Rightarrow> Triplet list \<Rightarrow> Painted list" where
  "cdcStrokePixels scale ts =
     concat (map (\<lambda>(a, b).
                    map (\<lambda>(x, y). FillRect ''#000000'' x ((7 * scale - 1) - y) 1 1)
                      (bresenhamLine (fst a * scale) (snd a * scale)
                                     (fst b * scale) (snd b * scale)))
               (beamOnSegments (0, 0) ts))"

text \<open>A fresh canvas context, on which the concrete renderings below are computed.\<close>

definition blankCtx :: Ctx where
  "blankCtx = \<lparr> fillStyle = ''#000000'', strokeStyle = ''#000000'', lineWidth = 1,
                 path = [], painted = [] \<rparr>"

section \<open>Properties of the decoder\<close>

lemma decodeLoop_acc: "decodeLoop s acc bs = acc @ decodeLoop s [] bs"
proof (induction bs arbitrary: s acc)
  case Nil
  show ?case by simp
next
  case (Cons b bs)
  have "decodeLoop s acc (b # bs)
        = decodeLoop (strokeStep b s) (acc @ [pointOf (strokeStep b s)]) bs"
    by (simp add: Let_def)
  also have "\<dots> = (acc @ [pointOf (strokeStep b s)]) @ decodeLoop (strokeStep b s) [] bs"
    by (rule Cons.IH)
  also have "\<dots> = acc @ decodeLoop (strokeStep b s) [pointOf (strokeStep b s)] bs"
    using Cons.IH [of "strokeStep b s" "[pointOf (strokeStep b s)]"] by simp
  finally show ?case by (simp add: Let_def)
qed

lemma decodeLoop_Cons:
  "decodeLoop s [] (b # bs) = pointOf (strokeStep b s) # decodeLoop (strokeStep b s) [] bs"
  using decodeLoop_acc [of "strokeStep b s" "[pointOf (strokeStep b s)]" bs]
  by (simp add: Let_def)

lemma decodeLoop_length: "length (decodeLoop s [] bs) = length bs"
  by (induction bs arbitrary: s) (simp_all add: decodeLoop_Cons del: decodeLoop.simps(2))

lemma decodeLoop_append:
  "decodeLoop s acc (xs @ ys)
   = decodeLoop (foldl (\<lambda>t b. strokeStep b t) s xs) (decodeLoop s acc xs) ys"
  by (induction xs arbitrary: s acc) (simp_all add: Let_def)

lemma decodeLoop_nth:
  "i < length bs \<Longrightarrow>
     decodeLoop s [] bs ! i = pointOf (foldl (\<lambda>t b. strokeStep b t) s (take (Suc i) bs))"
proof (induction bs arbitrary: s i)
  case Nil
  then show ?case by simp
next
  case (Cons b bs)
  show ?case
  proof (cases i)
    case 0
    then show ?thesis by (simp add: decodeLoop_Cons del: decodeLoop.simps(2))
  next
    case (Suc j)
    then have "j < length bs" using Cons.prems by simp
    from Cons.IH [OF this, of "strokeStep b s"] show ?thesis
      using Suc by (simp add: decodeLoop_Cons del: decodeLoop.simps(2))
  qed
qed

subsection \<open>The flags are the low five bits\<close>

lemma toInt32_bit: "bit (toInt32 n) k = bit n (min 31 k)"
  by (simp add: toInt32_def bit_signed_take_bit_iff)

lemma js_and_bit: "bit (js_and a b) k = (bit a (min 31 k) \<and> bit b (min 31 k))"
  by (simp add: js_and_def toInt32_bit bit_and_iff)

lemma Boolean_and_1: "Boolean (js_and a 1) = bit a 0"
proof -
  have "js_and a 1 = toInt32 a AND 1"
    by (rule bit_eqI) (auto simp add: js_and_bit bit_and_iff toInt32_bit bit_1_iff)
  then show ?thesis
    using toInt32_bit [of a 0]
    by (simp add: Boolean_def and_one_eq bit_0 odd_iff_mod_2_eq_one)
qed

lemma js_shr_bit0: "k < 32 \<Longrightarrow> bit (js_shr b (int k)) 0 = bit b (min 31 k)"
  by (simp add: js_shr_def bit_drop_bit_eq toInt32_bit)

lemma flag_bit: "k < 32 \<Longrightarrow> Boolean (js_and (js_shr b (int k)) 1) = bit b (min 31 k)"
  by (simp add: Boolean_and_1 js_shr_bit0)

lemma decodeBinary_bits:
  "decodeBinary b = \<lparr> V1 = bit b 4, V2 = bit b 3, H1 = bit b 2, H2 = bit b 1, U = bit b 0 \<rparr>"
  using flag_bit [of 4 b] flag_bit [of 3 b] flag_bit [of 2 b] flag_bit [of 1 b]
  by (simp add: decodeBinary_def Boolean_and_1)

lemma bit_31_low: "bit (31 :: int) k = (k < 5)"
proof -
  have "(31 :: int) = mask 5" by (simp add: mask_eq_exp_minus_1)
  then have "bit (31 :: int) k = bit (mask 5 :: int) k" by (simp only:)
  then show ?thesis by (simp only: bit_mask_iff) simp
qed

lemma decodeBinary_mask: "decodeBinary (js_and b 31) = decodeBinary b"
  by (simp add: decodeBinary_bits js_and_bit bit_31_low)

lemma strokeStep_mask: "strokeStep (js_and b 31) s = strokeStep b s"
  by (simp add: strokeStep_def decodeBinary_mask)

lemma decodeLoop_mask:
  "decodeLoop s acc (xs @ js_and b 31 # ys) = decodeLoop s acc (xs @ b # ys)"
  by (simp add: decodeLoop_append strokeStep_mask Let_def)

subsection \<open>Directions stay unit, so a stroke moves at most two units\<close>

lemma initial_directions: "directionsOk initialState"
  by (simp add: directionsOk_def initialState_def)

lemma strokeStep_directions: "directionsOk s \<Longrightarrow> directionsOk (strokeStep b s)"
  by (simp add: directionsOk_def strokeStep_def Let_def verticalStep_def horizontalStep_def
      beamStep_def)

lemma strokeStep_bounded:
  "directionsOk s \<Longrightarrow>
     \<bar>currentX (strokeStep b s) - currentX s\<bar> \<le> 2
     \<and> \<bar>currentY (strokeStep b s) - currentY s\<bar> \<le> 2"
  by (auto simp add: directionsOk_def strokeStep_def Let_def verticalStep_def
      horizontalStep_def beamStep_def)

lemma decodeLoop_bounded:
  "directionsOk s \<Longrightarrow> i < length bs \<Longrightarrow>
     \<bar>fst ((pointOf s # decodeLoop s [] bs) ! Suc i)
        - fst ((pointOf s # decodeLoop s [] bs) ! i)\<bar> \<le> 2
     \<and> \<bar>fst (snd ((pointOf s # decodeLoop s [] bs) ! Suc i))
         - fst (snd ((pointOf s # decodeLoop s [] bs) ! i))\<bar> \<le> 2"
proof (induction bs arbitrary: s i)
  case Nil
  then show ?case by simp
next
  case (Cons b bs)
  show ?case
  proof (cases i)
    case 0
    then show ?thesis
      using strokeStep_bounded [OF Cons.prems(1), of b]
      by (simp add: decodeLoop_Cons pointOf_def del: decodeLoop.simps(2))
  next
    case (Suc j)
    then have "j < length bs" using Cons.prems(2) by simp
    from Cons.IH [OF strokeStep_directions [OF Cons.prems(1)] this, of b]
    show ?thesis using Suc by (simp add: decodeLoop_Cons del: decodeLoop.simps(2))
  qed
qed

subsection \<open>The axes are independent\<close>

lemma strokeStep_vertical:
  "currentY (strokeStep b s) = currentY (verticalStep (decodeBinary b) s)"
  "verticalDirection (strokeStep b s) = verticalDirection (verticalStep (decodeBinary b) s)"
  by (simp_all add: strokeStep_def Let_def horizontalStep_def beamStep_def)

lemma verticalStep_keeps_horizontal:
  "currentX (verticalStep f s) = currentX s"
  "horizontalDirection (verticalStep f s) = horizontalDirection s"
  by (simp_all add: verticalStep_def)

lemma strokeStep_horizontal:
  "currentX (strokeStep b s) = currentX (horizontalStep (decodeBinary b) s)"
  "horizontalDirection (strokeStep b s) = horizontalDirection (horizontalStep (decodeBinary b) s)"
  by (simp_all add: strokeStep_def Let_def horizontalStep_def beamStep_def
      verticalStep_keeps_horizontal)

lemma strokeStep_beam:
  "beamOn (strokeStep b s) = (if U (decodeBinary b) then \<not> beamOn s else beamOn s)"
  by (simp add: strokeStep_def Let_def beamStep_def horizontalStep_def verticalStep_def)

lemma decode_examples:
  "binaryToVector [24, 16] = [(0, 0, False), (0, - 1, False)]"
  "binaryToVector [24, 8] = [(0, 0, False), (0, - 2, False)]"
  "binaryToVector [6, 4] = [(0, 0, False), (- 1, 0, False)]"
  "binaryToVector [24, 0, 16] = [(0, 0, False), (0, 0, False), (0, - 1, False)]"
  by (simp_all add: binaryToVector_def initialState_def strokeStep_def decodeBinary_bits
        verticalStep_def horizontalStep_def beamStep_def pointOf_def Let_def)

subsection \<open>Specified behaviour of the decoder\<close>

text \<open>
  C1. The flags are bits 4 to 0 of the stroke code. On each axis a stroke with both
  movement bits set negates the direction and leaves the coordinate alone; with the first
  bit alone it moves 1 unit, with the second alone 2 units, in the direction held at that
  moment; with neither it changes nothing; and the direction changes on no other stroke,
  so a toggle persists until the next toggle. The beam flips exactly on \<open>U\<close>. Each point
  of the decoded glyph is the state reached by applying these steps in order from the
  initial state, so the direction set by one stroke is the one the next movement uses:
  \<open>[0b11000, 0b10000]\<close> decodes to \<open>[(0,0,false), (0,-1,false)]\<close>,
  \<open>[0b11000, 0b01000]\<close> to \<open>[(0,0,false), (0,-2,false)]\<close>,
  \<open>[0b00110, 0b00100]\<close> to \<open>[(0,0,false), (-1,0,false)]\<close> and
  \<open>[0b11000, 0, 0b10000]\<close> to \<open>[(0,0,false), (0,0,false), (0,-1,false)]\<close>.
\<close>

theorem toggle_stroke:
  "decodeBinary b
     = \<lparr> V1 = bit b 4, V2 = bit b 3, H1 = bit b 2, H2 = bit b 1, U = bit b 0 \<rparr>
   \<and> currentY (strokeStep b s)
     = (if V1 (decodeBinary b) \<and> V2 (decodeBinary b) then currentY s
        else if V1 (decodeBinary b) then currentY s + 1 * verticalDirection s
        else if V2 (decodeBinary b) then currentY s + 2 * verticalDirection s
        else currentY s)
   \<and> verticalDirection (strokeStep b s)
     = (if V1 (decodeBinary b) \<and> V2 (decodeBinary b) then - verticalDirection s
        else verticalDirection s)
   \<and> currentX (strokeStep b s)
     = (if H1 (decodeBinary b) \<and> H2 (decodeBinary b) then currentX s
        else if H1 (decodeBinary b) then currentX s + 1 * horizontalDirection s
        else if H2 (decodeBinary b) then currentX s + 2 * horizontalDirection s
        else currentX s)
   \<and> horizontalDirection (strokeStep b s)
     = (if H1 (decodeBinary b) \<and> H2 (decodeBinary b) then - horizontalDirection s
        else horizontalDirection s)
   \<and> beamOn (strokeStep b s) = (if U (decodeBinary b) then \<not> beamOn s else beamOn s)
   \<and> length (binaryToVector g) = length g
   \<and> (\<forall>i < length g.
        binaryToVector g ! i
        = pointOf (foldl (\<lambda>s b. strokeStep b s) initialState (take (Suc i) g)))
   \<and> (V1 (decodeBinary b) \<and> V2 (decodeBinary b) \<longrightarrow>
      currentY (strokeStep b s) = currentY s
      \<and> verticalDirection (strokeStep b s) = - verticalDirection s)
   \<and> (H1 (decodeBinary b) \<and> H2 (decodeBinary b) \<longrightarrow>
      currentX (strokeStep b s) = currentX s
      \<and> horizontalDirection (strokeStep b s) = - horizontalDirection s)
   \<and> (V1 (decodeBinary b) \<and> V2 (decodeBinary b)
       \<and> V1 (decodeBinary b') \<and> \<not> V2 (decodeBinary b') \<longrightarrow>
      currentY (strokeStep b' (strokeStep b s)) = currentY s - verticalDirection s)
   \<and> binaryToVector [24, 16] = [(0, 0, False), (0, - 1, False)]
   \<and> binaryToVector [24, 8] = [(0, 0, False), (0, - 2, False)]
   \<and> binaryToVector [6, 4] = [(0, 0, False), (- 1, 0, False)]
   \<and> binaryToVector [24, 0, 16] = [(0, 0, False), (0, 0, False), (0, - 1, False)]"
proof -
  have y: "currentY (strokeStep b s)
     = (if V1 (decodeBinary b) \<and> V2 (decodeBinary b) then currentY s
        else if V1 (decodeBinary b) then currentY s + 1 * verticalDirection s
        else if V2 (decodeBinary b) then currentY s + 2 * verticalDirection s
        else currentY s)" for b s
    by (simp add: strokeStep_vertical verticalStep_def)
  have vd: "verticalDirection (strokeStep b s)
     = (if V1 (decodeBinary b) \<and> V2 (decodeBinary b) then - verticalDirection s
        else verticalDirection s)" for b s
    by (simp add: strokeStep_vertical verticalStep_def)
  have x: "currentX (strokeStep b s)
     = (if H1 (decodeBinary b) \<and> H2 (decodeBinary b) then currentX s
        else if H1 (decodeBinary b) then currentX s + 1 * horizontalDirection s
        else if H2 (decodeBinary b) then currentX s + 2 * horizontalDirection s
        else currentX s)"
    by (simp add: strokeStep_horizontal horizontalStep_def)
  have hd: "horizontalDirection (strokeStep b s)
     = (if H1 (decodeBinary b) \<and> H2 (decodeBinary b) then - horizontalDirection s
        else horizontalDirection s)"
    by (simp add: strokeStep_horizontal horizontalStep_def)
  have nth: "\<forall>i < length g.
        binaryToVector g ! i
        = pointOf (foldl (\<lambda>s b. strokeStep b s) initialState (take (Suc i) g))"
    by (simp add: binaryToVector_def decodeLoop_nth)
  have len: "length (binaryToVector g) = length g"
    by (simp add: binaryToVector_def decodeLoop_length)
  have v: "V1 (decodeBinary b) \<and> V2 (decodeBinary b) \<longrightarrow>
      currentY (strokeStep b s) = currentY s
      \<and> verticalDirection (strokeStep b s) = - verticalDirection s"
    by (simp add: y vd)
  have h: "H1 (decodeBinary b) \<and> H2 (decodeBinary b) \<longrightarrow>
      currentX (strokeStep b s) = currentX s
      \<and> horizontalDirection (strokeStep b s) = - horizontalDirection s"
    by (simp add: x hd)
  have n: "V1 (decodeBinary b) \<and> V2 (decodeBinary b)
       \<and> V1 (decodeBinary b') \<and> \<not> V2 (decodeBinary b') \<longrightarrow>
      currentY (strokeStep b' (strokeStep b s)) = currentY s - verticalDirection s"
    by (simp add: y [of b' "strokeStep b s"] y [of b s] vd [of b s])
  from decodeBinary_bits [of b] y [of b s] vd [of b s] x hd strokeStep_beam [of b s] len nth v h n
    decode_examples
  show ?thesis by (intro conjI) assumption+
qed

theorem toggle_stroke_witness:
  "V1 (decodeBinary 30) \<and> V2 (decodeBinary 30) \<and> H1 (decodeBinary 30) \<and> H2 (decodeBinary 30)
   \<and> V1 (decodeBinary 16) \<and> \<not> V2 (decodeBinary 16)
   \<and> currentY (strokeStep 30 initialState) = 0
   \<and> verticalDirection (strokeStep 30 initialState) = - 1
   \<and> currentX (strokeStep 30 initialState) = 0
   \<and> horizontalDirection (strokeStep 30 initialState) = - 1
   \<and> currentY (strokeStep 16 (strokeStep 30 initialState)) = - 1
   \<and> (2 :: nat) < length [24, 0, 16 :: int]
   \<and> binaryToVector [24, 0, 16] ! 2
     = pointOf (strokeStep 16 (strokeStep 0 (strokeStep 24 initialState)))"
proof -
  note t = toggle_stroke [of 30 initialState "[24, 0, 16]" 16]
  have flags: "V1 (decodeBinary 30) \<and> V2 (decodeBinary 30) \<and> H1 (decodeBinary 30)
      \<and> H2 (decodeBinary 30) \<and> V1 (decodeBinary 16) \<and> \<not> V2 (decodeBinary 16)"
    by (simp add: decodeBinary_bits)
  from t have nth: "\<forall>i < length [24, 0, 16 :: int].
        binaryToVector [24, 0, 16] ! i
        = pointOf (foldl (\<lambda>s b. strokeStep b s) initialState (take (Suc i) [24, 0, 16]))"
    by (elim conjE)
  from t have v: "V1 (decodeBinary 30) \<and> V2 (decodeBinary 30) \<longrightarrow>
      currentY (strokeStep 30 initialState) = currentY initialState
      \<and> verticalDirection (strokeStep 30 initialState) = - verticalDirection initialState"
    by (elim conjE)
  from t have h: "H1 (decodeBinary 30) \<and> H2 (decodeBinary 30) \<longrightarrow>
      currentX (strokeStep 30 initialState) = currentX initialState
      \<and> horizontalDirection (strokeStep 30 initialState) = - horizontalDirection initialState"
    by (elim conjE)
  from t have n: "V1 (decodeBinary 30) \<and> V2 (decodeBinary 30)
       \<and> V1 (decodeBinary 16) \<and> \<not> V2 (decodeBinary 16) \<longrightarrow>
      currentY (strokeStep 16 (strokeStep 30 initialState))
      = currentY initialState - verticalDirection initialState"
    by (elim conjE)
  from nth [THEN spec, of 2]
  have p: "binaryToVector [24, 0, 16] ! 2
     = pointOf (strokeStep 16 (strokeStep 0 (strokeStep 24 initialState)))"
    by (simp add: numeral_3_eq_3)
  from flags v h n p show ?thesis by (simp add: initialState_def)
qed

text \<open>
  C2. The decoded sequence has the length of the glyph, the empty glyph decodes to the
  empty sequence, and the point at index \<open>i\<close> is the position and beam after the first
  \<open>i + 1\<close> stroke codes, in order.
\<close>

theorem decode_length:
  "length (binaryToVector g) = length g
   \<and> binaryToVector [] = []
   \<and> (\<forall>i < length g.
        binaryToVector g ! i
        = pointOf (foldl (\<lambda>s b. strokeStep b s) initialState (take (Suc i) g)))"
proof -
  have "binaryToVector g = decodeLoop initialState [] g"
    by (simp add: binaryToVector_def)
  then show ?thesis
    by (simp add: decodeLoop_length decodeLoop_nth binaryToVector_def)
qed

theorem decode_length_witness:
  "(1 :: nat) < length [10, 28, 3 :: int]
   \<and> length (binaryToVector [10, 28, 3]) = 3
   \<and> binaryToVector [10, 28, 3] ! 1
     = pointOf (strokeStep 28 (strokeStep 10 initialState))"
  using decode_length [of "[10, 28, 3]"] by (simp add: numeral_2_eq_2)

text \<open>
  C3. Only the low five bits of a stroke code are read: at any position of a glyph and
  from any decode state, replacing a code \<open>b\<close> by \<open>b & 0b11111\<close> changes nothing. This
  holds for every integer \<open>b\<close>, in particular for every byte. The decoder has no failing
  path: it returns one point per code.
\<close>

theorem decode_masks_high_bits:
  "decodeLoop s acc (xs @ js_and b 31 # ys) = decodeLoop s acc (xs @ b # ys)
   \<and> binaryToVector (xs @ js_and b 31 # ys) = binaryToVector (xs @ b # ys)
   \<and> length (binaryToVector (xs @ b # ys)) = length (xs @ b # ys)"
  by (simp add: decodeLoop_mask binaryToVector_def decodeLoop_length)

theorem decode_masks_high_bits_witness:
  "js_and 255 31 = 31
   \<and> binaryToVector [10, 255, 3] = binaryToVector [10, 31, 3]
   \<and> binaryToVector [10, 255, 3] = [(2, 2, False), (2, 2, True), (0, 2, False)]"
proof -
  have m: "js_and 255 31 = 31" by code_simp
  have "binaryToVector ([10] @ js_and 255 31 # [3]) = binaryToVector ([10] @ 255 # [3])"
    using decode_masks_high_bits [of initialState "[]" "[10]" 255 "[3]"] by (elim conjE)
  then have "binaryToVector [10, 31, 3] = binaryToVector [10, 255, 3]"
    by (simp only: m append_Cons append_Nil)
  moreover have "binaryToVector [10, 31, 3] = [(2, 2, False), (2, 2, True), (0, 2, False)]"
    by (simp add: binaryToVector_def initialState_def strokeStep_def decodeBinary_bits
      verticalStep_def horizontalStep_def beamStep_def pointOf_def Let_def)
  ultimately show ?thesis using m by simp
qed

text \<open>
  C10. Each decoded point differs from its predecessor (the origin for the first point)
  by at most 2 on each axis.
\<close>

theorem decode_step_bounded:
  assumes "i < length g"
  shows "\<bar>fst (binaryToVector g ! i)
          - (if i = 0 then 0 else fst (binaryToVector g ! (i - 1)))\<bar> \<le> 2
       \<and> \<bar>fst (snd (binaryToVector g ! i))
           - (if i = 0 then 0 else fst (snd (binaryToVector g ! (i - 1))))\<bar> \<le> 2"
proof -
  from assms have "g \<noteq> []" by auto
  then have eq: "binaryToVector g = decodeLoop initialState [] g"
    by (simp add: binaryToVector_def)
  show ?thesis
    using decodeLoop_bounded [OF initial_directions assms]
    by (cases i) (simp_all add: eq pointOf_def initialState_def)
qed

theorem decode_step_bounded_witness:
  "(2 :: nat) < length [10, 28, 3 :: int]
   \<and> \<bar>fst (binaryToVector [10, 28, 3] ! 2) - fst (binaryToVector [10, 28, 3] ! 1)\<bar> \<le> 2
   \<and> \<bar>fst (snd (binaryToVector [10, 28, 3] ! 2))
       - fst (snd (binaryToVector [10, 28, 3] ! 1))\<bar> \<le> 2"
  using decode_step_bounded [of 2 "[10, 28, 3]"] by simp

text \<open>
  C9. For a character that is not a key of the ROM table, \<open>getCharacterBinary\<close> returns
  the table's entry for the space character; when the table has that entry, the result
  is that glyph.
\<close>

theorem missing_character_is_space:
  assumes "c \<notin> dom rom"
  shows "getCharacterBinary rom c = rom (CHR '' '')
       \<and> (\<forall>g. rom (CHR '' '') = Some g \<longrightarrow> getCharacterBinary rom c = Some g)"
  using assms by (auto simp add: getCharacterBinary_def dom_def)

theorem missing_character_is_space_witness:
  "CHR ''#'' \<notin> dom [CHR '' '' \<mapsto> [0, 0], CHR ''A'' \<mapsto> [10, 5 :: int]]
   \<and> getCharacterBinary [CHR '' '' \<mapsto> [0, 0], CHR ''A'' \<mapsto> [10, 5]] CHR ''#'' = Some [0, 0]"
  using missing_character_is_space [of "CHR ''#''" "[CHR '' '' \<mapsto> [0, 0], CHR ''A'' \<mapsto> [10, 5]]"]
  by simp

section \<open>Properties of the triplet functions\<close>

lemma findDwellLoop_filter:
  "findDwellLoop ts i acc
   = acc @ filter (\<lambda>j. isDwell (ts ! j) (ts ! (j - 1))) [i ..< length ts]"
proof (induction ts i acc rule: findDwellLoop.induct)
  case (1 ts i acc)
  show ?case
  proof (cases "i < length ts")
    case True
    then have up: "[i ..< length ts] = i # [i + 1 ..< length ts]"
      by (simp add: upt_conv_Cons)
    show ?thesis
      using True 1 [OF True] by (subst findDwellLoop.simps) (simp add: up)
  next
    case False
    then show ?thesis by (subst findDwellLoop.simps) simp
  qed
qed

lemma isDwell_proj:
  "isDwell t p = (fst t = fst p \<and> fst (snd t) = fst (snd p) \<and> snd (snd t) > 0 \<and> snd (snd p) > 0)"
  by (simp add: isDwell_def split: prod.splits)

subsection \<open>Specified behaviour of the triplet functions\<close>

text \<open>
  C8. \<open>vectorToTriplets\<close> keeps the length and the order; the triplet at each index has
  the \<open>x\<close> and \<open>y\<close> of the point at that index, and its intensity is 0 or 1, and 1
  exactly when the beam is on.
\<close>

theorem triplets_elementwise:
  "length (vectorToTriplets pts) = length pts
   \<and> (\<forall>i < length pts.
        fst (vectorToTriplets pts ! i) = fst (pts ! i)
        \<and> fst (snd (vectorToTriplets pts ! i)) = fst (snd (pts ! i))
        \<and> snd (snd (vectorToTriplets pts ! i)) \<in> {0, 1}
        \<and> (snd (snd (vectorToTriplets pts ! i)) = 1 \<longleftrightarrow> snd (snd (pts ! i))))"
  by (auto simp add: vectorToTriplets_def Let_def split: prod.splits)

theorem triplets_elementwise_witness:
  "(1 :: nat) < length [(2, 2, False), (4, 3, True)]
   \<and> vectorToTriplets [(2 :: int, 2 :: int, False), (4, 3, True)] ! 1 = (4, 3, 1)"
proof -
  from triplets_elementwise [of "[(2, 2, False), (4, 3, True)]"]
  have "\<forall>i < length [(2 :: int, 2 :: int, False), (4, 3, True)].
        fst (vectorToTriplets [(2, 2, False), (4, 3, True)] ! i) = fst ([(2 :: int, 2 :: int, False), (4, 3, True)] ! i)
        \<and> fst (snd (vectorToTriplets [(2, 2, False), (4, 3, True)] ! i)) = fst (snd ([(2 :: int, 2 :: int, False), (4, 3, True)] ! i))
        \<and> snd (snd (vectorToTriplets [(2, 2, False), (4, 3, True)] ! i)) \<in> {0, 1}
        \<and> (snd (snd (vectorToTriplets [(2, 2, False), (4, 3, True)] ! i)) = 1 \<longleftrightarrow> snd (snd ([(2 :: int, 2 :: int, False), (4, 3, True)] ! i)))"
    by (rule conjunct2)
  from this [THEN spec, of 1] show ?thesis
    by (simp add: prod_eq_iff)
qed

text \<open>
  C6. \<open>findDwellPoints\<close> returns, in increasing order, exactly the indices \<open>i\<close> from
  1 on at which the position equals the position at \<open>i - 1\<close> and both intensities are
  greater than 0. For intensities that are not negative (0 and 1 in particular) this is
  the same as both being nonzero. Index 0 is never returned, and for
  \<open>[(3,3,1), (3,3,1), (4,3,1)]\<close> the result is \<open>[1]\<close>.
\<close>

theorem dwell_points:
  "findDwellPoints ts
     = filter (\<lambda>i. fst (ts ! i) = fst (ts ! (i - 1))
                  \<and> fst (snd (ts ! i)) = fst (snd (ts ! (i - 1)))
                  \<and> snd (snd (ts ! i)) > 0 \<and> snd (snd (ts ! (i - 1))) > 0)
         [1 ..< length ts]
   \<and> ((\<forall>t \<in> set ts. 0 \<le> snd (snd t)) \<longrightarrow>
        findDwellPoints ts
          = filter (\<lambda>i. fst (ts ! i) = fst (ts ! (i - 1))
                       \<and> fst (snd (ts ! i)) = fst (snd (ts ! (i - 1)))
                       \<and> snd (snd (ts ! i)) \<noteq> 0 \<and> snd (snd (ts ! (i - 1))) \<noteq> 0)
              [1 ..< length ts])
   \<and> 0 \<notin> set (findDwellPoints ts)
   \<and> findDwellPoints [(3, 3, 1), (3, 3, 1), (4, 3, 1)] = [1]"
proof -
  have eq: "findDwellPoints ts
     = filter (\<lambda>i. fst (ts ! i) = fst (ts ! (i - 1))
                  \<and> fst (snd (ts ! i)) = fst (snd (ts ! (i - 1)))
                  \<and> snd (snd (ts ! i)) > 0 \<and> snd (snd (ts ! (i - 1))) > 0)
         [1 ..< length ts]" for ts
    by (simp add: findDwellPoints_def findDwellLoop_filter isDwell_proj)
  have nonneg: "findDwellPoints ts
          = filter (\<lambda>i. fst (ts ! i) = fst (ts ! (i - 1))
                       \<and> fst (snd (ts ! i)) = fst (snd (ts ! (i - 1)))
                       \<and> snd (snd (ts ! i)) \<noteq> 0 \<and> snd (snd (ts ! (i - 1))) \<noteq> 0)
              [1 ..< length ts]"
    if h: "\<forall>t \<in> set ts. 0 \<le> snd (snd t)"
  proof -
    have pos: "(snd (snd (ts ! j)) > 0) = (snd (snd (ts ! j)) \<noteq> 0)" if "j < length ts" for j
      using h nth_mem [OF that] by fastforce
    show ?thesis
      unfolding eq
      by (rule filter_cong [OF refl]) (use pos in auto)
  qed
  have zero: "0 \<notin> set (findDwellPoints ts)"
    by (simp add: eq)
  have ex: "findDwellPoints [(3, 3, 1), (3, 3, 1), (4, 3, 1)] = [1]"
    by (simp add: eq upt_conv_Cons)
  from eq nonneg zero ex show ?thesis by blast
qed

theorem dwell_points_witness:
  "list_all (\<lambda>t. 0 \<le> snd (snd t))
     [(3, 3, 1), (3, 3, 1), (3, 3, 2), (5, 3, 0), (5, 3, 0 :: int)]
   \<and> findDwellPoints [(3, 3, 1), (3, 3, 1), (3, 3, 2), (5, 3, 0), (5, 3, 0)] = [1, 2]"
  using dwell_points [of "[(3, 3, 1), (3, 3, 1), (3, 3, 2), (5, 3, 0), (5, 3, 0)]"]
  by (simp add: upt_conv_Cons)

section \<open>Properties of the rasterizer\<close>

subsection \<open>The line walk ends\<close>

text \<open>
  With \<open>rx\<close> and \<open>ry\<close> the steps still to go on each axis, the error term of the walk is
  \<open>dx - dy + rx * dy - ry * dx\<close>. From this the walk never steps past the end point on
  either axis and always steps on at least one, so \<open>rx + ry\<close> decreases.
\<close>

lemma bresenham_progress:
  fixes rx ry dx dy err :: int
  assumes "0 \<le> rx" "rx \<le> dx" "0 \<le> ry" "ry \<le> dy"
    and err: "err = dx - dy + rx * dy - ry * dx"
    and more: "0 < rx \<or> 0 < ry"
  shows "- dy < 2 * err \<longrightarrow> 0 < rx"
    and "2 * err < dx \<longrightarrow> 0 < ry"
    and "- dy < 2 * err \<or> 2 * err < dx"
proof -
  have dx0: "0 \<le> dx" and dy0: "0 \<le> dy" using assms by linarith+
  have P: "0 < rx \<Longrightarrow> dy \<le> rx * dy"
    using dy0 mult_right_mono [of 1 rx dy] by simp
  have Q: "0 < ry \<Longrightarrow> dx \<le> ry * dx"
    using dx0 mult_right_mono [of 1 ry dx] by simp
  show "- dy < 2 * err \<longrightarrow> 0 < rx"
  proof
    assume a: "- dy < 2 * err"
    show "0 < rx"
    proof (rule ccontr)
      assume "\<not> 0 < rx"
      with assms have "rx = 0" "0 < ry" by linarith+
      with Q err a assms show False by simp
    qed
  qed
  show "2 * err < dx \<longrightarrow> 0 < ry"
  proof
    assume a: "2 * err < dx"
    show "0 < ry"
    proof (rule ccontr)
      assume "\<not> 0 < ry"
      with assms have "ry = 0" "0 < rx" by linarith+
      with P err a assms show False by simp
    qed
  qed
  show "- dy < 2 * err \<or> 2 * err < dx"
    using assms by linarith
qed

lemma unit_times: "\<bar>s\<bar> = (1::int) \<Longrightarrow> s * (a - (b + s)) = s * (a - b) - 1"
  by (auto simp add: abs_if algebra_simps split: if_splits)

lemma unit_zero: "\<bar>s\<bar> = (1::int) \<Longrightarrow> (s * (a - b) = 0) = (b = a)"
  by (auto simp add: abs_if split: if_splits)

lemma cdcLoop_returns:
  assumes "\<bar>sx\<bar> = 1" "\<bar>sy\<bar> = 1"
  shows "0 \<le> sx * (x1 - x) \<Longrightarrow> sx * (x1 - x) \<le> dx \<Longrightarrow>
         0 \<le> sy * (y1 - y) \<Longrightarrow> sy * (y1 - y) \<le> dy \<Longrightarrow>
         err = dx - dy + sx * (x1 - x) * dy - sy * (y1 - y) * dx \<Longrightarrow>
         \<exists>pts. drawCDCBitmapLineLoop x1 y1 w scale dx dy sx sy x y err ctx
                 = Some (ctx\<lparr>painted := painted ctx @ map (cdcPixel (fillStyle ctx) w scale) pts\<rparr>)
             \<and> pts \<noteq> [] \<and> hd pts = (x, y) \<and> last pts = (x1, y1)
             \<and> (\<forall>p \<in> set pts. 0 \<le> sx * (x1 - fst p) \<and> sx * (x1 - fst p) \<le> sx * (x1 - x)
                              \<and> 0 \<le> sy * (y1 - snd p) \<and> sy * (y1 - snd p) \<le> sy * (y1 - y))"
proof (induction "nat (sx * (x1 - x) + sy * (y1 - y))" arbitrary: x y err ctx rule: less_induct)
  case less
  let ?rx = "sx * (x1 - x)" and ?ry = "sy * (y1 - y)"
  let ?ctx1 = "fillRect x ((7 * scale - 1) - y) w w ctx"
  show ?case
  proof (cases "x = x1 \<and> y = y1")
    case True
    have "drawCDCBitmapLineLoop x1 y1 w scale dx dy sx sy x y err ctx = Some ?ctx1"
      using True by (subst drawCDCBitmapLineLoop.simps) (simp add: Let_def)
    then show ?thesis
      using True by (intro exI [of _ "[(x, y)]"]) (simp add: fillRect_def cdcPixel_def)
  next
    case False
    then have more: "0 < ?rx \<or> 0 < ?ry"
      using less.prems(1,3) unit_zero [OF assms(1), of x1 x] unit_zero [OF assms(2), of y1 y]
      by linarith
    note prog = bresenham_progress [OF less.prems(1,2,3,4,5) more]
    define stepx where "stepx = (- dy < 2 * err)"
    define stepy where "stepy = (2 * err < dx)"
    define xn where "xn = (if stepx then x + sx else x)"
    define yn where "yn = (if stepy then y + sy else y)"
    define errn where "errn = (if stepy then (if stepx then err - dy else err) + dx
                               else (if stepx then err - dy else err))"
    have unfold: "drawCDCBitmapLineLoop x1 y1 w scale dx dy sx sy x y err ctx
                  = drawCDCBitmapLineLoop x1 y1 w scale dx dy sx sy xn yn errn ?ctx1"
    proof -
      have cond: "(x = x1 \<and> y = y1) = False" using False by simp
      show ?thesis
        by (subst drawCDCBitmapLineLoop.simps)
           (simp only: Let_def cond if_False stepx_def stepy_def xn_def yn_def errn_def)
    qed
    have rxn: "sx * (x1 - xn) = ?rx - (if stepx then 1 else 0)"
      by (simp add: xn_def unit_times [OF assms(1)])
    have ryn: "sy * (y1 - yn) = ?ry - (if stepy then 1 else 0)"
      by (simp add: yn_def unit_times [OF assms(2)])
    have sx_pos: "stepx \<Longrightarrow> 0 < ?rx" and sy_pos: "stepy \<Longrightarrow> 0 < ?ry"
      and some: "stepx \<or> stepy"
      using prog by (simp_all add: stepx_def stepy_def)
    have m: "nat (sx * (x1 - xn) + sy * (y1 - yn)) < nat (?rx + ?ry)"
      using some sx_pos sy_pos less.prems(1,3) by (auto simp add: rxn ryn)
    have i1: "0 \<le> sx * (x1 - xn)" and i2: "sx * (x1 - xn) \<le> dx"
      and i3: "0 \<le> sy * (y1 - yn)" and i4: "sy * (y1 - yn) \<le> dy"
      using sx_pos sy_pos less.prems(1-4) by (auto simp add: rxn ryn)
    have i5: "errn = dx - dy + sx * (x1 - xn) * dy - sy * (y1 - yn) * dx"
      unfolding rxn ryn errn_def using less.prems(5) by (simp add: algebra_simps)
    from less.hyps [OF m i1 i2 i3 i4 i5, of ?ctx1]
    obtain pts where
      run: "drawCDCBitmapLineLoop x1 y1 w scale dx dy sx sy xn yn errn ?ctx1
            = Some (?ctx1\<lparr>painted := painted ?ctx1 @ map (cdcPixel (fillStyle ?ctx1) w scale) pts\<rparr>)"
      and ne: "pts \<noteq> []" and lst: "last pts = (x1, y1)"
      and box: "\<forall>p \<in> set pts. 0 \<le> sx * (x1 - fst p) \<and> sx * (x1 - fst p) \<le> sx * (x1 - xn)
                              \<and> 0 \<le> sy * (y1 - snd p) \<and> sy * (y1 - snd p) \<le> sy * (y1 - yn)"
      by blast
    have le: "sx * (x1 - xn) \<le> ?rx" "sy * (y1 - yn) \<le> ?ry"
      by (simp_all add: rxn ryn)
    have "drawCDCBitmapLineLoop x1 y1 w scale dx dy sx sy x y err ctx
          = Some (ctx\<lparr>painted := painted ctx @ map (cdcPixel (fillStyle ctx) w scale) ((x, y) # pts)\<rparr>)"
      unfolding unfold run by (simp add: fillRect_def cdcPixel_def)
    moreover have "\<forall>p \<in> set ((x, y) # pts). 0 \<le> sx * (x1 - fst p) \<and> sx * (x1 - fst p) \<le> ?rx
                              \<and> 0 \<le> sy * (y1 - snd p) \<and> sy * (y1 - snd p) \<le> ?ry"
      using box le less.prems(1,3) by auto
    ultimately show ?thesis
      using ne lst by (intro exI [of _ "(x, y) # pts"]) simp
  qed
qed


lemma drawCDCBitmapLine_returns:
  "\<exists>pts. drawCDCBitmapLine ctx x0 y0 x1 y1 w scale
            = Some (ctx\<lparr>painted := painted ctx @ map (cdcPixel (fillStyle ctx) w scale) pts\<rparr>)
        \<and> (x0, y0) \<in> set pts \<and> (x1, y1) \<in> set pts
        \<and> (\<forall>p \<in> set pts. inBox (x0, y0) (x1, y1) p)"
proof -
  define sx :: int where "sx = (if x0 < x1 then 1 else - 1)"
  define sy :: int where "sy = (if y0 < y1 then 1 else - 1)"
  have u: "\<bar>sx\<bar> = 1" "\<bar>sy\<bar> = 1" by (simp_all add: sx_def sy_def)
  have rx: "sx * (x1 - x0) = \<bar>x1 - x0\<bar>" and ry: "sy * (y1 - y0) = \<bar>y1 - y0\<bar>"
    by (simp_all add: sx_def sy_def)
  have "\<exists>pts. drawCDCBitmapLineLoop x1 y1 w scale \<bar>x1 - x0\<bar> \<bar>y1 - y0\<bar> sx sy x0 y0
                 (\<bar>x1 - x0\<bar> - \<bar>y1 - y0\<bar>) ctx
                 = Some (ctx\<lparr>painted := painted ctx @ map (cdcPixel (fillStyle ctx) w scale) pts\<rparr>)
             \<and> pts \<noteq> [] \<and> hd pts = (x0, y0) \<and> last pts = (x1, y1)
             \<and> (\<forall>p \<in> set pts. 0 \<le> sx * (x1 - fst p) \<and> sx * (x1 - fst p) \<le> sx * (x1 - x0)
                              \<and> 0 \<le> sy * (y1 - snd p) \<and> sy * (y1 - snd p) \<le> sy * (y1 - y0))"
    by (rule cdcLoop_returns [OF u]) (simp_all add: rx ry)
  then obtain pts where
    run: "drawCDCBitmapLineLoop x1 y1 w scale \<bar>x1 - x0\<bar> \<bar>y1 - y0\<bar> sx sy x0 y0
                 (\<bar>x1 - x0\<bar> - \<bar>y1 - y0\<bar>) ctx
          = Some (ctx\<lparr>painted := painted ctx @ map (cdcPixel (fillStyle ctx) w scale) pts\<rparr>)"
    and ne: "pts \<noteq> []" and hd: "hd pts = (x0, y0)" and lst: "last pts = (x1, y1)"
    and box: "\<forall>p \<in> set pts. 0 \<le> sx * (x1 - fst p) \<and> sx * (x1 - fst p) \<le> sx * (x1 - x0)
                              \<and> 0 \<le> sy * (y1 - snd p) \<and> sy * (y1 - snd p) \<le> sy * (y1 - y0)"
    by blast
  have "drawCDCBitmapLine ctx x0 y0 x1 y1 w scale
        = Some (ctx\<lparr>painted := painted ctx @ map (cdcPixel (fillStyle ctx) w scale) pts\<rparr>)"
    using run by (simp add: drawCDCBitmapLine_def Let_def sx_def sy_def)
  moreover have "(x0, y0) \<in> set pts" "(x1, y1) \<in> set pts"
    using ne hd lst hd_in_set [of pts] last_in_set [of pts] by simp_all
  moreover have "\<forall>p \<in> set pts. inBox (x0, y0) (x1, y1) p"
  proof
    fix p assume "p \<in> set pts"
    with box have b: "0 \<le> sx * (x1 - fst p)" "sx * (x1 - fst p) \<le> sx * (x1 - x0)"
      "0 \<le> sy * (y1 - snd p)" "sy * (y1 - snd p) \<le> sy * (y1 - y0)" by auto
    from b(1,2) have "between x0 x1 (fst p)"
      by (simp add: sx_def between_def split: if_splits)
    moreover from b(3,4) have "between y0 y1 (snd p)"
      by (simp add: sy_def between_def split: if_splits)
    ultimately show "inBox (x0, y0) (x1, y1) p" by (simp add: inBox_def)
  qed
  ultimately show ?thesis by blast
qed


lemma cdcStrokes_returns:
  "\<exists>strokes.
     cdcStrokes scale w px py ts ctx = Some (ctx\<lparr>painted := painted ctx @ strokes\<rparr>)
     \<and> (\<forall>op \<in> set strokes. \<exists>i p. i < length ts \<and> 0 < snd (snd (ts ! i))
           \<and> inBox (scaledPoint scale (position (((px, py, m) # ts) ! i)))
                   (scaledPoint scale (position (ts ! i))) p
           \<and> op = cdcPixel (fillStyle ctx) w scale p)
     \<and> (\<forall>i < length ts. 0 < snd (snd (ts ! i)) \<longrightarrow>
           cdcPixel (fillStyle ctx) w scale (scaledPoint scale (position (((px, py, m) # ts) ! i)))
             \<in> set strokes
           \<and> cdcPixel (fillStyle ctx) w scale (scaledPoint scale (position (ts ! i)))
             \<in> set strokes)"
proof (induction ts arbitrary: px py m ctx)
  case Nil
  show ?case by simp
next
  case (Cons t ts)
  obtain x y n where t: "t = (x, y, n)" by (cases t)
  let ?pix = "cdcPixel (fillStyle ctx) w scale"
  let ?a = "scaledPoint scale (position (px, py, m))"
  let ?b = "scaledPoint scale (position t)"
  show ?case
  proof (cases "0 < n")
    case True
    from drawCDCBitmapLine_returns [of ctx "px * scale" "py * scale" "x * scale" "y * scale" w scale]
    obtain pts where
      line: "drawCDCBitmapLine ctx (px * scale) (py * scale) (x * scale) (y * scale) w scale
             = Some (ctx\<lparr>painted := painted ctx @ map ?pix pts\<rparr>)"
      and a_in: "?a \<in> set pts" and b_in: "?b \<in> set pts"
      and box: "\<forall>p \<in> set pts. inBox ?a ?b p"
      by (auto simp add: scaledPoint_def position_def t)
    let ?ctx' = "ctx\<lparr>painted := painted ctx @ map ?pix pts\<rparr>"
    from Cons.IH [of x y ?ctx' n]
    obtain rest where
      run: "cdcStrokes scale w x y ts ?ctx' = Some (?ctx'\<lparr>painted := painted ?ctx' @ rest\<rparr>)"
      and only: "\<forall>op \<in> set rest. \<exists>i p. i < length ts \<and> 0 < snd (snd (ts ! i))
           \<and> inBox (scaledPoint scale (position ((t # ts) ! i)))
                   (scaledPoint scale (position (ts ! i))) p
           \<and> op = ?pix p"
      and ends: "\<forall>i < length ts. 0 < snd (snd (ts ! i)) \<longrightarrow>
           ?pix (scaledPoint scale (position ((t # ts) ! i))) \<in> set rest
           \<and> ?pix (scaledPoint scale (position (ts ! i))) \<in> set rest"
      unfolding t by auto
    have res: "cdcStrokes scale w px py (t # ts) ctx
          = Some (ctx\<lparr>painted := painted ctx @ (map ?pix pts @ rest)\<rparr>)"
      using True line run by (simp add: t Let_def)
    have only': "\<exists>i p. i < length (t # ts) \<and> 0 < snd (snd ((t # ts) ! i))
           \<and> inBox (scaledPoint scale (position (((px, py, m) # t # ts) ! i)))
                   (scaledPoint scale (position ((t # ts) ! i))) p
           \<and> op = ?pix p" if "op \<in> set (map ?pix pts @ rest)" for op
    proof (cases "op \<in> set rest")
      case True
      with only obtain i p where "i < length ts" "0 < snd (snd (ts ! i))"
        "inBox (scaledPoint scale (position ((t # ts) ! i)))
               (scaledPoint scale (position (ts ! i))) p" "op = ?pix p"
        by blast
      then show ?thesis
        by (intro exI [of _ "Suc i"] exI [of _ p]) simp
    next
      case False
      with that obtain p where "p \<in> set pts" "op = ?pix p" by auto
      with box \<open>0 < n\<close> show ?thesis
        by (intro exI [of _ "0::nat"] exI [of _ p]) (simp add: t)
    qed
    have ends': "?pix (scaledPoint scale (position (((px, py, m) # t # ts) ! i)))
                   \<in> set (map ?pix pts @ rest)
                 \<and> ?pix (scaledPoint scale (position ((t # ts) ! i)))
                   \<in> set (map ?pix pts @ rest)"
      if "i < length (t # ts)" "0 < snd (snd ((t # ts) ! i))" for i
    proof (cases i)
      case 0
      then show ?thesis using a_in b_in by simp
    next
      case (Suc j)
      with that ends show ?thesis by simp
    qed
    from res only' ends' show ?thesis by blast
  next
    case False
    from Cons.IH [of x y ctx n]
    obtain rest where
      run: "cdcStrokes scale w x y ts ctx = Some (ctx\<lparr>painted := painted ctx @ rest\<rparr>)"
      and only: "\<forall>op \<in> set rest. \<exists>i p. i < length ts \<and> 0 < snd (snd (ts ! i))
           \<and> inBox (scaledPoint scale (position ((t # ts) ! i)))
                   (scaledPoint scale (position (ts ! i))) p
           \<and> op = ?pix p"
      and ends: "\<forall>i < length ts. 0 < snd (snd (ts ! i)) \<longrightarrow>
           ?pix (scaledPoint scale (position ((t # ts) ! i))) \<in> set rest
           \<and> ?pix (scaledPoint scale (position (ts ! i))) \<in> set rest"
      unfolding t by auto
    have res: "cdcStrokes scale w px py (t # ts) ctx
          = Some (ctx\<lparr>painted := painted ctx @ rest\<rparr>)"
      using False run by (simp add: t)
    have only': "\<exists>i p. i < length (t # ts) \<and> 0 < snd (snd ((t # ts) ! i))
           \<and> inBox (scaledPoint scale (position (((px, py, m) # t # ts) ! i)))
                   (scaledPoint scale (position ((t # ts) ! i))) p
           \<and> op = ?pix p" if "op \<in> set rest" for op
    proof -
      from that only obtain i p where "i < length ts" "0 < snd (snd (ts ! i))"
        "inBox (scaledPoint scale (position ((t # ts) ! i)))
               (scaledPoint scale (position (ts ! i))) p" "op = ?pix p"
        by blast
      then show ?thesis
        by (intro exI [of _ "Suc i"] exI [of _ p]) simp
    qed
    have ends': "?pix (scaledPoint scale (position (((px, py, m) # t # ts) ! i))) \<in> set rest
                 \<and> ?pix (scaledPoint scale (position ((t # ts) ! i))) \<in> set rest"
      if "i < length (t # ts)" "0 < snd (snd ((t # ts) ! i))" for i
    proof (cases i)
      case 0
      with that False show ?thesis by (simp add: t)
    next
      case (Suc j)
      with that ends show ?thesis by simp
    qed
    from res only' ends' show ?thesis by blast
  qed
qed


lemma predecessor_position:
  "i < length ts \<Longrightarrow> position (((0, 0, m) # ts) ! i) = predecessor ts i"
  by (cases i) (simp_all add: position_def predecessor_def)

subsection \<open>Every stroke pixel lies in the box of a drawn segment\<close>

lemma cdc_scaled_bitmap_box:
  "\<exists>strokes.
     renderCDCScaledBitmap ctx triplets scale noOptions
       = Some (ctx\<lparr>fillStyle := ''#000000'',
                   painted := painted ctx
                     @ FillRect ''#ffffff'' 0 0 (7 * scale) (7 * scale) # strokes\<rparr>)
     \<and> (\<forall>op \<in> set strokes. \<exists>i p. i < length triplets \<and> 0 < snd (snd (triplets ! i))
           \<and> inBox (scaledPoint scale (predecessor triplets i))
                   (scaledPoint scale (position (triplets ! i))) p
           \<and> op = FillRect ''#000000'' (fst p) ((7 * scale - 1) - snd p) 1 1)
     \<and> (\<forall>i < length triplets. 0 < snd (snd (triplets ! i)) \<longrightarrow>
           FillRect ''#000000'' (fst (predecessor triplets i) * scale)
             ((7 * scale - 1) - snd (predecessor triplets i) * scale) 1 1 \<in> set strokes
           \<and> FillRect ''#000000'' (fst (triplets ! i) * scale)
             ((7 * scale - 1) - fst (snd (triplets ! i)) * scale) 1 1 \<in> set strokes)"
proof -
  let ?ctx3 = "(fillRect 0 0 (7 * scale) (7 * scale) (ctx\<lparr>fillStyle := ''#ffffff''\<rparr>))
                 \<lparr>fillStyle := ''#000000''\<rparr>"
  have render: "renderCDCScaledBitmap ctx triplets scale noOptions
                = cdcStrokes scale 1 0 0 triplets ?ctx3"
    by (simp add: renderCDCScaledBitmap_def noOptions_def orDefault_def Let_def)
  from cdcStrokes_returns [of scale 1 0 0 triplets ?ctx3 0]
  obtain strokes where
    run: "cdcStrokes scale 1 0 0 triplets ?ctx3 = Some (?ctx3\<lparr>painted := painted ?ctx3 @ strokes\<rparr>)"
    and only: "\<forall>op \<in> set strokes. \<exists>i p. i < length triplets \<and> 0 < snd (snd (triplets ! i))
           \<and> inBox (scaledPoint scale (position (((0, 0, 0) # triplets) ! i)))
                   (scaledPoint scale (position (triplets ! i))) p
           \<and> op = cdcPixel ''#000000'' 1 scale p"
    and ends: "\<forall>i < length triplets. 0 < snd (snd (triplets ! i)) \<longrightarrow>
           cdcPixel ''#000000'' 1 scale (scaledPoint scale (position (((0, 0, 0) # triplets) ! i)))
             \<in> set strokes
           \<and> cdcPixel ''#000000'' 1 scale (scaledPoint scale (position (triplets ! i)))
             \<in> set strokes"
    by auto
  have res: "renderCDCScaledBitmap ctx triplets scale noOptions
       = Some (ctx\<lparr>fillStyle := ''#000000'',
                   painted := painted ctx
                     @ FillRect ''#ffffff'' 0 0 (7 * scale) (7 * scale) # strokes\<rparr>)"
    unfolding render run by (simp add: fillRect_def)
  have only': "\<forall>op \<in> set strokes. \<exists>i p. i < length triplets \<and> 0 < snd (snd (triplets ! i))
           \<and> inBox (scaledPoint scale (predecessor triplets i))
                   (scaledPoint scale (position (triplets ! i))) p
           \<and> op = FillRect ''#000000'' (fst p) ((7 * scale - 1) - snd p) 1 1"
  proof
    fix op assume "op \<in> set strokes"
    with only obtain i p where "i < length triplets" "0 < snd (snd (triplets ! i))"
      "inBox (scaledPoint scale (position (((0, 0, 0) # triplets) ! i)))
             (scaledPoint scale (position (triplets ! i))) p"
      "op = cdcPixel ''#000000'' 1 scale p"
      by blast
    then show "\<exists>i p. i < length triplets \<and> 0 < snd (snd (triplets ! i))
           \<and> inBox (scaledPoint scale (predecessor triplets i))
                   (scaledPoint scale (position (triplets ! i))) p
           \<and> op = FillRect ''#000000'' (fst p) ((7 * scale - 1) - snd p) 1 1"
      by (intro exI [of _ i] exI [of _ p]) (simp add: predecessor_position cdcPixel_def)
  qed
  have ends': "\<forall>i < length triplets. 0 < snd (snd (triplets ! i)) \<longrightarrow>
           FillRect ''#000000'' (fst (predecessor triplets i) * scale)
             ((7 * scale - 1) - snd (predecessor triplets i) * scale) 1 1 \<in> set strokes
           \<and> FillRect ''#000000'' (fst (triplets ! i) * scale)
             ((7 * scale - 1) - fst (snd (triplets ! i)) * scale) 1 1 \<in> set strokes"
  proof (intro allI impI)
    fix i assume i: "i < length triplets" and on: "0 < snd (snd (triplets ! i))"
    with ends have
      "cdcPixel ''#000000'' 1 scale (scaledPoint scale (position (((0, 0, 0) # triplets) ! i)))
             \<in> set strokes
       \<and> cdcPixel ''#000000'' 1 scale (scaledPoint scale (position (triplets ! i)))
             \<in> set strokes"
      by blast
    then show "FillRect ''#000000'' (fst (predecessor triplets i) * scale)
             ((7 * scale - 1) - snd (predecessor triplets i) * scale) 1 1 \<in> set strokes
           \<and> FillRect ''#000000'' (fst (triplets ! i) * scale)
             ((7 * scale - 1) - fst (snd (triplets ! i)) * scale) 1 1 \<in> set strokes"
      using predecessor_position [OF i, of 0, symmetric]
      by (simp add: cdcPixel_def scaledPoint_def position_def)
  qed
  from res only' ends' show ?thesis by blast
qed

subsection \<open>The walk paints the nearest-pixel line\<close>

text \<open>
  While the walk advances along the longer axis, the error term is
  \<open>dx - dy + b * dx - k * dy\<close> after \<open>k\<close> steps with \<open>b\<close> steps taken on the shorter axis,
  and \<open>b\<close> is the integer nearest to \<open>k * dy / dx\<close>.
\<close>

lemma nearest_eqI:
  assumes "0 < q" "- q \<le> 2 * (b * q - p)" "2 * (b * q - p) < q"
  shows "nearest p q = b"
proof -
  have "(2 * p + q - 1) div (2 * q) = b"
  proof (rule int_div_pos_eq [where r = "2 * p + q - 1 - 2 * q * b"])
    show "2 * p + q - 1 = 2 * q * b + (2 * p + q - 1 - 2 * q * b)" by simp
    show "0 \<le> 2 * p + q - 1 - 2 * q * b" using assms(3) by (simp add: algebra_simps)
    show "2 * p + q - 1 - 2 * q * b < 2 * q" using assms(2) by (simp add: algebra_simps)
  qed
  then show ?thesis using assms(1) by (simp add: nearest_def)
qed

lemma nearest_bounds:
  assumes "0 < q"
  shows "- q \<le> 2 * (nearest p q * q - p)" and "2 * (nearest p q * q - p) < q"
proof -
  let ?a = "2 * p + q - 1" and ?c = "2 * q"
  have n: "nearest p q = ?a div ?c" using assms by (simp add: nearest_def)
  have c: "0 < ?c" using assms by simp
  have e: "?a = ?c * (?a div ?c) + ?a mod ?c" by simp
  have r: "0 \<le> ?a mod ?c" "?a mod ?c < ?c"
    using c by (simp_all only: pos_mod_sign pos_mod_bound)
  define t where "t = ?c * (?a div ?c)"
  have m: "2 * (nearest p q * q - p) = t - 2 * p" by (simp add: n t_def algebra_simps)
  from e have e': "?a = t + ?a mod ?c" by (simp only: t_def)
  from e' r show "- q \<le> 2 * (nearest p q * q - p)" unfolding m by linarith
  from e' r show "2 * (nearest p q * q - p) < q" unfolding m by linarith
qed

lemma nearest_zero: "0 \<le> q \<Longrightarrow> nearest 0 q = 0"
  by (cases "q = 0") (simp_all add: nearest_def)

lemma nearest_full: "0 < q \<Longrightarrow> nearest (q * d) q = d"
  by (intro nearest_eqI) (simp_all add: algebra_simps)


lemma upto_first: "k \<le> n \<Longrightarrow> [k..n] = k # [k + 1..n]"
  by (simp add: upto_rec1)

lemma cdcLoop_major_x:
  assumes u: "\<bar>sx\<bar> = 1" "\<bar>sy\<bar> = 1"
    and d: "0 \<le> dy" "dy \<le> dx" "0 < dx"
    and e1: "x1 = x0 + sx * dx" "y1 = y0 + sy * dy"
  shows "0 \<le> k \<Longrightarrow> k \<le> dx \<Longrightarrow>
     drawCDCBitmapLineLoop x1 y1 w scale dx dy sx sy
       (x0 + sx * k) (y0 + sy * nearest (k * dy) dx)
       (dx - dy + nearest (k * dy) dx * dx - k * dy) ctx
     = Some (ctx\<lparr>painted := painted ctx
          @ map (\<lambda>j. cdcPixel (fillStyle ctx) w scale (x0 + sx * j, y0 + sy * nearest (j * dy) dx))
              [k..dx]\<rparr>)"
proof (induction "nat (dx - k)" arbitrary: k ctx rule: less_induct)
  case less
  define bk where "bk = nearest (k * dy) dx"
  define P where "P = bk * dx"
  define Q where "Q = k * dy"
  define err where "err = dx - dy + P - Q"
  let ?x = "x0 + sx * k" and ?y = "y0 + sy * bk"
  let ?pix = "\<lambda>j. cdcPixel (fillStyle ctx) w scale (x0 + sx * j, y0 + sy * nearest (j * dy) dx)"
  let ?ctx1 = "fillRect ?x ((7 * scale - 1) - ?y) w w ctx"
  have nb: "- dx \<le> 2 * (P - Q)" "2 * (P - Q) < dx"
    using nearest_bounds [OF d(3), of "k * dy"] by (simp_all add: P_def Q_def bk_def)
  have ctx1: "?ctx1 = ctx\<lparr>painted := painted ctx @ [?pix k]\<rparr>"
    by (simp add: fillRect_def cdcPixel_def bk_def)
  show ?case
  proof (cases "k = dx")
    case True
    have "bk = dy" unfolding bk_def True using nearest_full [OF d(3), of dy] by simp
    then have "?x = x1 \<and> ?y = y1" using True e1 by simp
    then have "drawCDCBitmapLineLoop x1 y1 w scale dx dy sx sy ?x ?y err ctx = Some ?ctx1"
      by (subst drawCDCBitmapLineLoop.simps) (simp add: Let_def)
    then show ?thesis
      unfolding ctx1 using True by (simp add: bk_def err_def P_def Q_def)
  next
    case False
    with less.prems have lt: "k < dx" by simp
    have "sx * k \<noteq> sx * dx" using u(1) False by auto
    then have cond: "(?x = x1 \<and> ?y = y1) = False" using e1 by simp
    have diag: "dx = dy \<Longrightarrow> P - Q = 0"
    proof -
      assume eq: "dx = dy"
      have "nearest (dx * k) dx = k" by (rule nearest_full [OF d(3)])
      then show ?thesis by (simp add: P_def Q_def bk_def eq mult.commute)
    qed
    have stepx: "- dy < 2 * err"
    proof (cases "dx = dy")
      case True
      with diag d show ?thesis by (simp add: err_def)
    next
      case False
      with d nb show ?thesis by (simp add: err_def)
    qed
    define stepy where "stepy = (2 * err < dx)"
    define bn where "bn = (if stepy then bk + 1 else bk)"
    have bn_dx: "bn * dx = P + (if stepy then dx else 0)"
      by (simp add: bn_def P_def algebra_simps)
    have k1: "(k + 1) * dy = Q + dy" by (simp add: Q_def algebra_simps)
    have near: "nearest ((k + 1) * dy) dx = bn"
    proof (rule nearest_eqI [OF d(3)])
      show "- dx \<le> 2 * (bn * dx - (k + 1) * dy)"
        unfolding bn_dx k1 using nb d by (auto simp add: stepy_def err_def)
      show "2 * (bn * dx - (k + 1) * dy) < dx"
        unfolding bn_dx k1 using nb d by (auto simp add: stepy_def err_def)
    qed
    have xn: "?x + sx = x0 + sx * (k + 1)" by (simp add: algebra_simps)
    have yn: "(if stepy then ?y + sy else ?y) = y0 + sy * bn"
      by (simp add: bn_def algebra_simps)
    have en: "(if stepy then err - dy + dx else err - dy) = dx - dy + bn * dx - (k + 1) * dy"
      unfolding bn_dx k1 by (simp add: err_def)
    have unfold: "drawCDCBitmapLineLoop x1 y1 w scale dx dy sx sy ?x ?y err ctx
          = drawCDCBitmapLineLoop x1 y1 w scale dx dy sx sy
              (x0 + sx * (k + 1)) (y0 + sy * bn) (dx - dy + bn * dx - (k + 1) * dy) ?ctx1"
      apply (subst drawCDCBitmapLineLoop.simps)
      apply (simp only: Let_def cond if_False)
      apply (simp only: stepx if_True stepy_def [symmetric] xn)
      apply (simp only: yn en if_distrib [of "\<lambda>e. e + dx"] cong: if_cong)
      done
    have m: "nat (dx - (k + 1)) < nat (dx - k)" using lt by simp
    have "drawCDCBitmapLineLoop x1 y1 w scale dx dy sx sy
              (x0 + sx * (k + 1)) (y0 + sy * nearest ((k + 1) * dy) dx)
              (dx - dy + nearest ((k + 1) * dy) dx * dx - (k + 1) * dy) ?ctx1
          = Some (?ctx1\<lparr>painted := painted ?ctx1
              @ map (\<lambda>j. cdcPixel (fillStyle ?ctx1) w scale
                         (x0 + sx * j, y0 + sy * nearest (j * dy) dx)) [k + 1..dx]\<rparr>)"
      using less.prems lt by (intro less.hyps [OF m]) simp_all
    then have "drawCDCBitmapLineLoop x1 y1 w scale dx dy sx sy ?x ?y err ctx
          = Some (ctx\<lparr>painted := painted ctx @ ?pix k # map ?pix [k + 1..dx]\<rparr>)"
      unfolding unfold near ctx1 by simp
    then show ?thesis
      using upto_first [of k dx] lt by (simp add: bk_def err_def P_def Q_def)
  qed
qed


lemma cdcLoop_major_y:
  assumes u: "\<bar>sx\<bar> = 1" "\<bar>sy\<bar> = 1"
    and d: "0 \<le> dx" "dx < dy"
    and e1: "x1 = x0 + sx * dx" "y1 = y0 + sy * dy"
  shows "0 \<le> k \<Longrightarrow> k \<le> dy \<Longrightarrow>
     drawCDCBitmapLineLoop x1 y1 w scale dx dy sx sy
       (x0 + sx * nearest (k * dx) dy) (y0 + sy * k)
       (dx - dy + k * dx - nearest (k * dx) dy * dy) ctx
     = Some (ctx\<lparr>painted := painted ctx
          @ map (\<lambda>j. cdcPixel (fillStyle ctx) w scale (x0 + sx * nearest (j * dx) dy, y0 + sy * j))
              [k..dy]\<rparr>)"
proof (induction "nat (dy - k)" arbitrary: k ctx rule: less_induct)
  case less
  from d have dy: "0 < dy" by simp
  define ak where "ak = nearest (k * dx) dy"
  define P where "P = ak * dy"
  define Q where "Q = k * dx"
  define err where "err = dx - dy + Q - P"
  let ?x = "x0 + sx * ak" and ?y = "y0 + sy * k"
  let ?pix = "\<lambda>j. cdcPixel (fillStyle ctx) w scale (x0 + sx * nearest (j * dx) dy, y0 + sy * j)"
  let ?ctx1 = "fillRect ?x ((7 * scale - 1) - ?y) w w ctx"
  have nb: "- dy \<le> 2 * (P - Q)" "2 * (P - Q) < dy"
    using nearest_bounds [OF dy, of "k * dx"] by (simp_all add: P_def Q_def ak_def)
  have ctx1: "?ctx1 = ctx\<lparr>painted := painted ctx @ [?pix k]\<rparr>"
    by (simp add: fillRect_def cdcPixel_def ak_def)
  show ?case
  proof (cases "k = dy")
    case True
    have "ak = dx" unfolding ak_def True using nearest_full [OF dy, of dx] by simp
    then have "?x = x1 \<and> ?y = y1" using True e1 by simp
    then have "drawCDCBitmapLineLoop x1 y1 w scale dx dy sx sy ?x ?y err ctx = Some ?ctx1"
      by (subst drawCDCBitmapLineLoop.simps) (simp add: Let_def)
    then show ?thesis
      unfolding ctx1 using True by (simp add: ak_def err_def P_def Q_def)
  next
    case False
    with less.prems have lt: "k < dy" by simp
    have "sy * k \<noteq> sy * dy" using u(2) False by auto
    then have cond: "(?x = x1 \<and> ?y = y1) = False" using e1 by simp
    have stepy: "2 * err < dx"
      using d nb by (simp add: err_def)
    define stepx where "stepx = (- dy < 2 * err)"
    define an where "an = (if stepx then ak + 1 else ak)"
    have an_dy: "an * dy = P + (if stepx then dy else 0)"
      by (simp add: an_def P_def algebra_simps)
    have k1: "(k + 1) * dx = Q + dx" by (simp add: Q_def algebra_simps)
    have near: "nearest ((k + 1) * dx) dy = an"
    proof (rule nearest_eqI [OF dy])
      show "- dy \<le> 2 * (an * dy - (k + 1) * dx)"
        unfolding an_dy k1 using nb d by (auto simp add: stepx_def err_def)
      show "2 * (an * dy - (k + 1) * dx) < dy"
        unfolding an_dy k1 using nb d by (auto simp add: stepx_def err_def)
    qed
    have yn: "?y + sy = y0 + sy * (k + 1)" by (simp add: algebra_simps)
    have xn: "(if stepx then ?x + sx else ?x) = x0 + sx * an"
      by (simp add: an_def algebra_simps)
    have en: "(if stepx then err - dy else err) + dx = dx - dy + (k + 1) * dx - an * dy"
      unfolding an_dy k1 by (simp add: err_def)
    have unfold: "drawCDCBitmapLineLoop x1 y1 w scale dx dy sx sy ?x ?y err ctx
          = drawCDCBitmapLineLoop x1 y1 w scale dx dy sx sy
              (x0 + sx * an) (y0 + sy * (k + 1)) (dx - dy + (k + 1) * dx - an * dy) ?ctx1"
      apply (subst drawCDCBitmapLineLoop.simps)
      apply (simp only: Let_def cond if_False)
      apply (simp only: stepy if_True stepx_def [symmetric] xn yn en)
      done
    have m: "nat (dy - (k + 1)) < nat (dy - k)" using lt by simp
    have "drawCDCBitmapLineLoop x1 y1 w scale dx dy sx sy
              (x0 + sx * nearest ((k + 1) * dx) dy) (y0 + sy * (k + 1))
              (dx - dy + (k + 1) * dx - nearest ((k + 1) * dx) dy * dy) ?ctx1
          = Some (?ctx1\<lparr>painted := painted ?ctx1
              @ map (\<lambda>j. cdcPixel (fillStyle ?ctx1) w scale
                         (x0 + sx * nearest (j * dx) dy, y0 + sy * j)) [k + 1..dy]\<rparr>)"
      using less.prems lt by (intro less.hyps [OF m]) simp_all
    then have "drawCDCBitmapLineLoop x1 y1 w scale dx dy sx sy ?x ?y err ctx
          = Some (ctx\<lparr>painted := painted ctx @ ?pix k # map ?pix [k + 1..dy]\<rparr>)"
      unfolding unfold near ctx1 by simp
    then show ?thesis
      using upto_first [of k dy] lt by (simp add: ak_def err_def P_def Q_def)
  qed
qed

lemma drawCDCBitmapLine_bresenham:
  "drawCDCBitmapLine ctx x0 y0 x1 y1 w scale
   = Some (ctx\<lparr>painted := painted ctx
        @ map (cdcPixel (fillStyle ctx) w scale) (bresenhamLine x0 y0 x1 y1)\<rparr>)"
proof -
  define sx :: int where "sx = (if x0 < x1 then 1 else - 1)"
  define sy :: int where "sy = (if y0 < y1 then 1 else - 1)"
  define dx where "dx = \<bar>x1 - x0\<bar>"
  define dy where "dy = \<bar>y1 - y0\<bar>"
  have u: "\<bar>sx\<bar> = 1" "\<bar>sy\<bar> = 1" by (simp_all add: sx_def sy_def)
  have e1: "x1 = x0 + sx * dx" "y1 = y0 + sy * dy"
    by (simp_all add: sx_def sy_def dx_def dy_def)
  have nn: "0 \<le> dx" "0 \<le> dy" by (simp_all add: dx_def dy_def)
  have line: "drawCDCBitmapLine ctx x0 y0 x1 y1 w scale
              = drawCDCBitmapLineLoop x1 y1 w scale dx dy sx sy x0 y0 (dx - dy) ctx"
    by (simp add: drawCDCBitmapLine_def Let_def sx_def sy_def dx_def dy_def)
  show ?thesis
  proof (cases "dy \<le> dx")
    case True
    have spec: "bresenhamLine x0 y0 x1 y1
                = map (\<lambda>k. (x0 + sx * k, y0 + sy * nearest (k * dy) dx)) [0..dx]"
      using True by (simp add: bresenhamLine_def Let_def sx_def sy_def dx_def dy_def)
    show ?thesis
    proof (cases "dx = 0")
      case True
      with \<open>dy \<le> dx\<close> nn have z: "dx = 0" "dy = 0" by simp_all
      then have same: "x0 = x1 \<and> y0 = y1" using e1 by simp
      have "drawCDCBitmapLineLoop x1 y1 w scale dx dy sx sy x0 y0 (dx - dy) ctx
            = Some (fillRect x0 ((7 * scale - 1) - y0) w w ctx)"
        using same by (subst drawCDCBitmapLineLoop.simps) (simp add: Let_def)
      then show ?thesis
        unfolding line spec by (simp add: z nearest_def fillRect_def cdcPixel_def)
    next
      case False
      with nn have pos: "0 < dx" by simp
      from cdcLoop_major_x [OF u nn(2) True pos e1, of 0 w scale ctx] nn(1)
      show ?thesis
        unfolding line spec by (simp add: nearest_zero [OF nn(1)] comp_def)
    qed
  next
    case False
    then have lt: "dx < dy" by simp
    have spec: "bresenhamLine x0 y0 x1 y1
                = map (\<lambda>k. (x0 + sx * nearest (k * dx) dy, y0 + sy * k)) [0..dy]"
      using False by (simp add: bresenhamLine_def Let_def sx_def sy_def dx_def dy_def)
    from cdcLoop_major_y [OF u nn(1) lt e1, of 0 w scale ctx] nn(2)
    show ?thesis
      unfolding line spec by (simp add: nearest_zero [OF nn(2)] comp_def)
  qed
qed


lemma beamOnSegments_Cons:
  "beamOnSegments p ((x, y, n) # ts)
   = (if 0 < n then [(p, (x, y))] else []) @ beamOnSegments (x, y) ts"
  by (simp add: beamOnSegments_def position_def)

lemma cdcStrokes_bresenham:
  "cdcStrokes scale w px py ts ctx
   = Some (ctx\<lparr>painted := painted ctx
        @ concat (map (\<lambda>(a, b).
                         map (cdcPixel (fillStyle ctx) w scale)
                           (bresenhamLine (fst a * scale) (snd a * scale)
                                          (fst b * scale) (snd b * scale)))
                    (beamOnSegments (px, py) ts))\<rparr>)"
proof (induction ts arbitrary: px py ctx)
  case Nil
  show ?case by (simp add: beamOnSegments_def)
next
  case (Cons t ts)
  obtain x y n where t: "t = (x, y, n)" by (cases t)
  show ?case
  proof (cases "0 < n")
    case True
    let ?ctx' = "ctx\<lparr>painted := painted ctx
        @ map (cdcPixel (fillStyle ctx) w scale)
            (bresenhamLine (px * scale) (py * scale) (x * scale) (y * scale))\<rparr>"
    have "cdcStrokes scale w px py (t # ts) ctx = cdcStrokes scale w x y ts ?ctx'"
      using True by (simp add: t Let_def drawCDCBitmapLine_bresenham)
    also have "\<dots> = Some (?ctx'\<lparr>painted := painted ?ctx'
        @ concat (map (\<lambda>(a, b).
                         map (cdcPixel (fillStyle ?ctx') w scale)
                           (bresenhamLine (fst a * scale) (snd a * scale)
                                          (fst b * scale) (snd b * scale)))
                    (beamOnSegments (x, y) ts))\<rparr>)"
      by (rule Cons.IH)
    finally show ?thesis
      using True by (simp add: t beamOnSegments_Cons)
  next
    case False
    have "cdcStrokes scale w px py (t # ts) ctx = cdcStrokes scale w x y ts ctx"
      using False by (simp add: t)
    then show ?thesis
      using False by (simp add: t beamOnSegments_Cons Cons.IH)
  qed
qed

lemma renderCDCScaledBitmap_exact:
  "renderCDCScaledBitmap ctx triplets scale noOptions
   = Some (ctx\<lparr>fillStyle := ''#000000'',
               painted := painted ctx
                 @ FillRect ''#ffffff'' 0 0 (7 * scale) (7 * scale)
                 # cdcStrokePixels scale triplets\<rparr>)"
proof -
  have pix: "cdcPixel ''#000000'' 1 scale
             = (\<lambda>(x, y). FillRect ''#000000'' x ((7 * scale - 1) - y) 1 1)"
    by (rule ext) (simp add: cdcPixel_def split: prod.splits)
  show ?thesis
    by (simp add: renderCDCScaledBitmap_def noOptions_def orDefault_def Let_def
        cdcStrokes_bresenham fillRect_def cdcStrokePixels_def pix)
qed


subsection \<open>The line is one pixel wide\<close>

lemma nearest_step:
  assumes "0 < q" "0 \<le> d" "d \<le> q"
  shows "nearest (p + d) q - nearest p q \<in> {0, 1}"
proof -
  define a where "a = nearest p q"
  define b where "b = nearest (p + d) q"
  define c where "c = b - a"
  define aq where "aq = a * q"
  define bq where "bq = b * q"
  have A: "- q \<le> 2 * (aq - p)" "2 * (aq - p) < q"
    using nearest_bounds [OF assms(1), of p] by (simp_all add: a_def aq_def)
  have B: "- q \<le> 2 * (bq - (p + d))" "2 * (bq - (p + d)) < q"
    using nearest_bounds [OF assms(1), of "p + d"] by (simp_all add: b_def bq_def)
  have cq: "c * q = bq - aq" by (simp add: c_def aq_def bq_def algebra_simps)
  have "- q < bq - aq" using A B assms by arith
  then have lo: "(- 1) * q < c * q" unfolding cq by simp
  have "bq - aq < 2 * q" using A B assms by arith
  then have hi: "c * q < 2 * q" unfolding cq by simp
  from lo have "- 1 < c" using assms(1) by (simp only: mult_less_cancel_right_pos)
  moreover from hi have "c < 2" using assms(1) by (simp only: mult_less_cancel_right_pos)
  ultimately have "c = 0 \<or> c = 1" by linarith
  then show ?thesis by (simp add: c_def a_def b_def)
qed


lemma upto_nth_map:
  "k < nat (n + 1) \<Longrightarrow> map f [0..n] ! k = f (int k)"
  by (simp add: nth_upto)

lemma bresenhamLine_length:
  "length (bresenhamLine x0 y0 x1 y1) = nat (max \<bar>x1 - x0\<bar> \<bar>y1 - y0\<bar>) + 1"
  by (simp add: bresenhamLine_def Let_def nat_add_distrib max_def)

lemma bresenhamLine_ends:
  "hd (bresenhamLine x0 y0 x1 y1) = (x0, y0) \<and> last (bresenhamLine x0 y0 x1 y1) = (x1, y1)"
proof -
  define sx :: int where "sx = (if x0 < x1 then 1 else - 1)"
  define sy :: int where "sy = (if y0 < y1 then 1 else - 1)"
  define dx where "dx = \<bar>x1 - x0\<bar>"
  define dy where "dy = \<bar>y1 - y0\<bar>"
  have e1: "x0 + sx * dx = x1" "y0 + sy * dy = y1"
    by (simp_all add: sx_def sy_def dx_def dy_def)
  have nn: "0 \<le> dx" "0 \<le> dy" by (simp_all add: dx_def dy_def)
  have ne: "[0..dx] \<noteq> []" "[0..dy] \<noteq> []" using nn by simp_all
  have h: "hd [0..dx] = 0" "hd [0..dy] = 0" using nn by (simp_all add: upto_rec1)
  have l: "last [0..dx] = dx" "last [0..dy] = dy" using nn by (simp_all add: upto_rec2)
  show ?thesis
  proof (cases "dy \<le> dx")
    case True
    then have spec: "bresenhamLine x0 y0 x1 y1
                = map (\<lambda>k. (x0 + sx * k, y0 + sy * nearest (k * dy) dx)) [0..dx]"
      by (simp add: bresenhamLine_def Let_def sx_def sy_def dx_def dy_def)
    have full: "nearest (dx * dy) dx = dy"
    proof (cases "dx = 0")
      case True
      with \<open>dy \<le> dx\<close> nn show ?thesis by (simp add: nearest_def)
    next
      case False
      with nn have "0 < dx" by simp
      then show ?thesis by (rule nearest_full)
    qed
    show ?thesis
      unfolding spec using ne h l e1 full nn
      by (simp add: hd_map last_map nearest_zero)
  next
    case False
    then have spec: "bresenhamLine x0 y0 x1 y1
                = map (\<lambda>k. (x0 + sx * nearest (k * dx) dy, y0 + sy * k)) [0..dy]"
      by (simp add: bresenhamLine_def Let_def sx_def sy_def dx_def dy_def)
    from False nn have "0 < dy" by simp
    then have full: "nearest (dy * dx) dy = dx" by (rule nearest_full)
    show ?thesis
      unfolding spec using ne h l e1 full nn
      by (simp add: hd_map last_map nearest_zero)
  qed
qed

lemma bresenhamLine_step:
  assumes "Suc k < length (bresenhamLine x0 y0 x1 y1)"
  shows "max \<bar>fst (bresenhamLine x0 y0 x1 y1 ! Suc k) - fst (bresenhamLine x0 y0 x1 y1 ! k)\<bar>
             \<bar>snd (bresenhamLine x0 y0 x1 y1 ! Suc k) - snd (bresenhamLine x0 y0 x1 y1 ! k)\<bar>
         = 1"
proof -
  define sx :: int where "sx = (if x0 < x1 then 1 else - 1)"
  define sy :: int where "sy = (if y0 < y1 then 1 else - 1)"
  define dx where "dx = \<bar>x1 - x0\<bar>"
  define dy where "dy = \<bar>y1 - y0\<bar>"
  have u: "\<bar>sx\<bar> = 1" "\<bar>sy\<bar> = 1" by (simp_all add: sx_def sy_def)
  have nn: "0 \<le> dx" "0 \<le> dy" by (simp_all add: dx_def dy_def)
  have len: "Suc k < nat (max dx dy + 1)"
    using assms by (simp add: bresenhamLine_length dx_def dy_def)
  show ?thesis
  proof (cases "dy \<le> dx")
    case True
    then have spec: "bresenhamLine x0 y0 x1 y1
                = map (\<lambda>k. (x0 + sx * k, y0 + sy * nearest (k * dy) dx)) [0..dx]"
      by (simp add: bresenhamLine_def Let_def sx_def sy_def dx_def dy_def)
    from len True have k: "Suc k < nat (dx + 1)" "k < nat (dx + 1)" by simp_all
    then have pos: "0 < dx" by simp
    define c where "c = nearest (int k * dy + dy) dx - nearest (int k * dy) dx"
    have c: "c \<in> {0, 1}"
      unfolding c_def using nearest_step [OF pos nn(2) True, of "int k * dy"] by simp
    have fx: "fst (bresenhamLine x0 y0 x1 y1 ! Suc k) - fst (bresenhamLine x0 y0 x1 y1 ! k) = sx"
      unfolding spec by (simp add: upto_nth_map [OF k(1)] upto_nth_map [OF k(2)] algebra_simps)
    have fy: "snd (bresenhamLine x0 y0 x1 y1 ! Suc k) - snd (bresenhamLine x0 y0 x1 y1 ! k) = sy * c"
      unfolding spec
      by (simp add: upto_nth_map [OF k(1)] upto_nth_map [OF k(2)] algebra_simps c_def)
    show ?thesis
      unfolding fx fy using u c by (auto simp add: abs_mult)
  next
    case False
    then have spec: "bresenhamLine x0 y0 x1 y1
                = map (\<lambda>k. (x0 + sx * nearest (k * dx) dy, y0 + sy * k)) [0..dy]"
      by (simp add: bresenhamLine_def Let_def sx_def sy_def dx_def dy_def)
    from len False have k: "Suc k < nat (dy + 1)" "k < nat (dy + 1)" by simp_all
    from False nn have pos: "0 < dy" and le: "dx \<le> dy" by simp_all
    define c where "c = nearest (int k * dx + dx) dy - nearest (int k * dx) dy"
    have c: "c \<in> {0, 1}"
      unfolding c_def using nearest_step [OF pos nn(1) le, of "int k * dx"] by simp
    have fy: "snd (bresenhamLine x0 y0 x1 y1 ! Suc k) - snd (bresenhamLine x0 y0 x1 y1 ! k) = sy"
      unfolding spec by (simp add: upto_nth_map [OF k(1)] upto_nth_map [OF k(2)] algebra_simps)
    have fx: "fst (bresenhamLine x0 y0 x1 y1 ! Suc k) - fst (bresenhamLine x0 y0 x1 y1 ! k) = sx * c"
      unfolding spec
      by (simp add: upto_nth_map [OF k(1)] upto_nth_map [OF k(2)] algebra_simps c_def)
    show ?thesis
      unfolding fx fy using u c by (auto simp add: abs_mult)
  qed
qed

subsection \<open>Beam-off points paint nothing\<close>

lemma trueSizeStrokes_beam_off:
  "\<forall>t \<in> set ts. snd (snd t) \<le> 0 \<Longrightarrow> trueSizeStrokes px py ts ctx = Some ctx"
  by (induction ts arbitrary: px py) auto

lemma renderTrueSize_beam_off:
  assumes "\<forall>t \<in> set ts. snd (snd t) \<le> 0"
  shows "renderTrueSizeBitmap ctx ts options
         = Some (ctx\<lparr>fillStyle := orDefault (pixelColor options) ''#000000'',
                     painted := painted ctx
                       @ [FillRect (orDefault (backgroundColor options) ''#ffffff'') 0 0 7 7]\<rparr>)"
  by (simp add: renderTrueSizeBitmap_def Let_def trueSizeStrokes_beam_off [OF assms] fillRect_def)

lemma decode_10_10: "binaryToVector [10, 10] = [(2, 2, False), (4, 4, False)]"
  by (simp add: binaryToVector_def initialState_def strokeStep_def decodeBinary_bits
      verticalStep_def horizontalStep_def beamStep_def pointOf_def Let_def)

subsection \<open>The rasterizer on concrete input\<close>

lemma true_size_example:
  "renderTrueSizeBitmap blankCtx [(2, 2, 0), (4, 4, 1)] noOptions
   = Some (blankCtx\<lparr>painted :=
       [FillRect ''#ffffff'' 0 0 7 7,
        FillRect ''#000000'' 2 4 1 1, FillRect ''#000000'' 3 3 1 1,
        FillRect ''#000000'' 4 2 1 1]\<rparr>)"
  by code_simp

lemma cdc_example:
  "renderCDCScaledBitmap blankCtx [(1, 1, 0), (2, 3, 1)] 2 noOptions
   = Some (blankCtx\<lparr>painted :=
       [FillRect ''#ffffff'' 0 0 14 14,
        FillRect ''#000000'' 2 11 1 1, FillRect ''#000000'' 2 10 1 1,
        FillRect ''#000000'' 3 9 1 1, FillRect ''#000000'' 3 8 1 1,
        FillRect ''#000000'' 4 7 1 1]\<rparr>)"
  by code_simp

subsection \<open>Specified behaviour of the rasterizer\<close>

text \<open>
  C4. The glyph \<open>[0b01010, 0b01010]\<close> decodes to \<open>[(2,2,false), (4,4,false)]\<close>, and
  true-size rasterization of its triplets paints the background and nothing else. In
  general a triplet whose intensity is not greater than 0 draws no segment, so a sequence
  of such triplets leaves no stroke pixels.
\<close>

theorem end_to_end_beam_off:
  "binaryToVector [10, 10] = [(2, 2, False), (4, 4, False)]
   \<and> vectorToTriplets (binaryToVector [10, 10]) = [(2, 2, 0), (4, 4, 0)]
   \<and> renderTrueSizeBitmap ctx (vectorToTriplets (binaryToVector [10, 10])) options
       = Some (ctx\<lparr>fillStyle := orDefault (pixelColor options) ''#000000'',
                   painted := painted ctx
                     @ [FillRect (orDefault (backgroundColor options) ''#ffffff'') 0 0 7 7]\<rparr>)
   \<and> ((\<forall>t \<in> set ts. snd (snd t) \<le> 0) \<longrightarrow>
        renderTrueSizeBitmap ctx ts options
         = Some (ctx\<lparr>fillStyle := orDefault (pixelColor options) ''#000000'',
                     painted := painted ctx
                       @ [FillRect (orDefault (backgroundColor options) ''#ffffff'') 0 0 7 7]\<rparr>))"
proof -
  have tr: "vectorToTriplets (binaryToVector [10, 10]) = [(2, 2, 0), (4, 4, 0)]"
    by (simp add: decode_10_10 vectorToTriplets_def)
  have "\<forall>t \<in> set [(2, 2, 0), (4, 4, 0 :: int)] :: Triplet set. snd (snd t) \<le> 0" by simp
  from renderTrueSize_beam_off [OF this]
  have "renderTrueSizeBitmap ctx (vectorToTriplets (binaryToVector [10, 10])) options
       = Some (ctx\<lparr>fillStyle := orDefault (pixelColor options) ''#000000'',
                   painted := painted ctx
                     @ [FillRect (orDefault (backgroundColor options) ''#ffffff'') 0 0 7 7]\<rparr>)"
    by (simp only: tr)
  with decode_10_10 tr renderTrueSize_beam_off [of ts ctx options] show ?thesis
    by (intro conjI impI) assumption+
qed

theorem end_to_end_beam_off_witness:
  "list_all (\<lambda>t. snd (snd t) \<le> 0) [(1, 0, 0), (1, 5, - 1 :: int) :: Triplet]
   \<and> renderTrueSizeBitmap blankCtx [(1, 0, 0), (1, 5, - 1)] noOptions
      = Some (blankCtx\<lparr>painted := [FillRect ''#ffffff'' 0 0 7 7]\<rparr>)"
proof -
  have h: "\<forall>t \<in> set [(1, 0, 0), (1, 5, - 1 :: int)] :: Triplet set. snd (snd t) \<le> 0" by simp
  from end_to_end_beam_off [of blankCtx noOptions "[(1, 0, 0), (1, 5, - 1)]"]
  have "(\<forall>t \<in> set [(1, 0, 0), (1, 5, - 1 :: int)] :: Triplet set. snd (snd t) \<le> 0) \<longrightarrow>
        renderTrueSizeBitmap blankCtx [(1, 0, 0), (1, 5, - 1)] noOptions
         = Some (blankCtx\<lparr>fillStyle := orDefault (pixelColor noOptions) ''#000000'',
                     painted := painted blankCtx
                       @ [FillRect (orDefault (backgroundColor noOptions) ''#ffffff'') 0 0 7 7]\<rparr>)"
    by (elim conjE)
  from this [THEN mp, OF h] h show ?thesis
    by (simp add: blankCtx_def noOptions_def orDefault_def)
qed

text \<open>
  C5. CDC-scaled rasterization with default options, at every integer scale and so at
  1, 2, 4 and 8. The walk of every segment ends. The canvas is cleared over
  \<open>(7 * scale) \<times> (7 * scale)\<close>, and what is painted after that is exactly
  \<open>cdcStrokePixels\<close>: for each segment whose destination intensity is greater than 0, in
  order, the pixels of the line between its two end points multiplied by \<open>scale\<close>, each
  pixel \<open>(x, y)\<close> as a rectangle of width 1 and height 1 at \<open>(x, (7 * scale - 1) - y)\<close>.
  The line is one pixel wide at every scale: it runs from the start point to the end
  point, has one pixel for each unit of the longer axis, and successive pixels are
  neighbours (they differ by exactly 1 on one axis and at most 1 on the other). Every
  stroke pixel lies in the scaled bounding box of a drawn segment, and both scaled end
  points of every drawn segment are painted.
\<close>

theorem cdc_scaled_bitmap:
  "renderCDCScaledBitmap ctx triplets scale noOptions
     = Some (ctx\<lparr>fillStyle := ''#000000'',
                 painted := painted ctx
                   @ FillRect ''#ffffff'' 0 0 (7 * scale) (7 * scale)
                   # cdcStrokePixels scale triplets\<rparr>)
   \<and> length (bresenhamLine x0 y0 x1 y1) = nat (max \<bar>x1 - x0\<bar> \<bar>y1 - y0\<bar>) + 1
   \<and> hd (bresenhamLine x0 y0 x1 y1) = (x0, y0)
   \<and> last (bresenhamLine x0 y0 x1 y1) = (x1, y1)
   \<and> (\<forall>k. Suc k < length (bresenhamLine x0 y0 x1 y1) \<longrightarrow>
         max \<bar>fst (bresenhamLine x0 y0 x1 y1 ! Suc k) - fst (bresenhamLine x0 y0 x1 y1 ! k)\<bar>
             \<bar>snd (bresenhamLine x0 y0 x1 y1 ! Suc k) - snd (bresenhamLine x0 y0 x1 y1 ! k)\<bar>
         = 1)
   \<and> (\<forall>op \<in> set (cdcStrokePixels scale triplets).
         \<exists>i p. i < length triplets \<and> 0 < snd (snd (triplets ! i))
           \<and> inBox (scaledPoint scale (predecessor triplets i))
                   (scaledPoint scale (position (triplets ! i))) p
           \<and> op = FillRect ''#000000'' (fst p) ((7 * scale - 1) - snd p) 1 1)
   \<and> (\<forall>i < length triplets. 0 < snd (snd (triplets ! i)) \<longrightarrow>
         FillRect ''#000000'' (fst (predecessor triplets i) * scale)
           ((7 * scale - 1) - snd (predecessor triplets i) * scale) 1 1
           \<in> set (cdcStrokePixels scale triplets)
         \<and> FillRect ''#000000'' (fst (triplets ! i) * scale)
           ((7 * scale - 1) - fst (snd (triplets ! i)) * scale) 1 1
           \<in> set (cdcStrokePixels scale triplets))"
proof -
  note exact = renderCDCScaledBitmap_exact [of ctx triplets scale]
  have box: "(\<forall>op \<in> set (cdcStrokePixels scale triplets).
         \<exists>i p. i < length triplets \<and> 0 < snd (snd (triplets ! i))
           \<and> inBox (scaledPoint scale (predecessor triplets i))
                   (scaledPoint scale (position (triplets ! i))) p
           \<and> op = FillRect ''#000000'' (fst p) ((7 * scale - 1) - snd p) 1 1)
   \<and> (\<forall>i < length triplets. 0 < snd (snd (triplets ! i)) \<longrightarrow>
         FillRect ''#000000'' (fst (predecessor triplets i) * scale)
           ((7 * scale - 1) - snd (predecessor triplets i) * scale) 1 1
           \<in> set (cdcStrokePixels scale triplets)
         \<and> FillRect ''#000000'' (fst (triplets ! i) * scale)
           ((7 * scale - 1) - fst (snd (triplets ! i)) * scale) 1 1
           \<in> set (cdcStrokePixels scale triplets))"
    using cdc_scaled_bitmap_box [of ctx triplets scale]
  proof (elim exE conjE)
    fix strokes
    assume run: "renderCDCScaledBitmap ctx triplets scale noOptions
       = Some (ctx\<lparr>fillStyle := ''#000000'',
                   painted := painted ctx
                     @ FillRect ''#ffffff'' 0 0 (7 * scale) (7 * scale) # strokes\<rparr>)"
      and only: "\<forall>op \<in> set strokes. \<exists>i p. i < length triplets \<and> 0 < snd (snd (triplets ! i))
           \<and> inBox (scaledPoint scale (predecessor triplets i))
                   (scaledPoint scale (position (triplets ! i))) p
           \<and> op = FillRect ''#000000'' (fst p) ((7 * scale - 1) - snd p) 1 1"
      and ends: "\<forall>i < length triplets. 0 < snd (snd (triplets ! i)) \<longrightarrow>
           FillRect ''#000000'' (fst (predecessor triplets i) * scale)
             ((7 * scale - 1) - snd (predecessor triplets i) * scale) 1 1 \<in> set strokes
           \<and> FillRect ''#000000'' (fst (triplets ! i) * scale)
             ((7 * scale - 1) - fst (snd (triplets ! i)) * scale) 1 1 \<in> set strokes"
    from run exact have
      "ctx\<lparr>fillStyle := ''#000000'',
                   painted := painted ctx
                     @ FillRect ''#ffffff'' 0 0 (7 * scale) (7 * scale) # strokes\<rparr>
       = ctx\<lparr>fillStyle := ''#000000'',
                 painted := painted ctx
                   @ FillRect ''#ffffff'' 0 0 (7 * scale) (7 * scale)
                   # cdcStrokePixels scale triplets\<rparr>"
      by (simp only: option.inject)
    then have "painted (ctx\<lparr>fillStyle := ''#000000'',
                   painted := painted ctx
                     @ FillRect ''#ffffff'' 0 0 (7 * scale) (7 * scale) # strokes\<rparr>)
       = painted (ctx\<lparr>fillStyle := ''#000000'',
                 painted := painted ctx
                   @ FillRect ''#ffffff'' 0 0 (7 * scale) (7 * scale)
                   # cdcStrokePixels scale triplets\<rparr>)"
      by (rule arg_cong)
    then have same: "strokes = cdcStrokePixels scale triplets" by simp
    from only ends show ?thesis unfolding same by (rule conjI)
  qed
  have step: "\<forall>k. Suc k < length (bresenhamLine x0 y0 x1 y1) \<longrightarrow>
         max \<bar>fst (bresenhamLine x0 y0 x1 y1 ! Suc k) - fst (bresenhamLine x0 y0 x1 y1 ! k)\<bar>
             \<bar>snd (bresenhamLine x0 y0 x1 y1 ! Suc k) - snd (bresenhamLine x0 y0 x1 y1 ! k)\<bar>
         = 1"
    by (intro allI impI) (rule bresenhamLine_step)
  from bresenhamLine_ends [of x0 y0 x1 y1]
  have ends: "hd (bresenhamLine x0 y0 x1 y1) = (x0, y0)" "last (bresenhamLine x0 y0 x1 y1) = (x1, y1)"
    by (rule conjunct1, rule conjunct2)
  from exact bresenhamLine_length [of x0 y0 x1 y1] ends step box show ?thesis
    by (intro conjI) (assumption | erule conjunct1 | erule conjunct2)+
qed


theorem cdc_scaled_bitmap_witness:
  "renderCDCScaledBitmap blankCtx [(1, 1, 0), (2, 3, 1)] 2 noOptions
     = Some (blankCtx\<lparr>painted :=
         [FillRect ''#ffffff'' 0 0 14 14,
          FillRect ''#000000'' 2 11 1 1, FillRect ''#000000'' 2 10 1 1,
          FillRect ''#000000'' 3 9 1 1, FillRect ''#000000'' 3 8 1 1,
          FillRect ''#000000'' 4 7 1 1]\<rparr>)
   \<and> bresenhamLine 2 2 4 6 = [(2, 2), (2, 3), (3, 4), (3, 5), (4, 6)]
   \<and> Suc 1 < length (bresenhamLine 2 2 4 6)
   \<and> max \<bar>fst (bresenhamLine 2 2 4 6 ! Suc 1) - fst (bresenhamLine 2 2 4 6 ! 1)\<bar>
         \<bar>snd (bresenhamLine 2 2 4 6 ! Suc 1) - snd (bresenhamLine 2 2 4 6 ! 1)\<bar> = 1
   \<and> (1 :: nat) < length ([(1, 1, 0), (2, 3, 1)] :: Triplet list)
   \<and> (0 :: int) < snd (snd (([(1, 1, 0), (2, 3, 1)] :: Triplet list) ! 1))
   \<and> FillRect ''#000000'' 2 11 1 1 \<in> set (cdcStrokePixels 2 [(1, 1, 0), (2, 3, 1)])
   \<and> FillRect ''#000000'' 4 7 1 1 \<in> set (cdcStrokePixels 2 [(1, 1, 0), (2, 3, 1)])"
proof -
  have line: "bresenhamLine 2 2 4 6 = [(2, 2), (2, 3), (3, 4), (3, 5), (4, 6)]"
    by code_simp
  have px: "cdcStrokePixels 2 [(1, 1, 0), (2, 3, 1)]
            = [FillRect ''#000000'' 2 11 1 1, FillRect ''#000000'' 2 10 1 1,
               FillRect ''#000000'' 3 9 1 1, FillRect ''#000000'' 3 8 1 1,
               FillRect ''#000000'' 4 7 1 1]"
    by code_simp
  note t = cdc_scaled_bitmap [of blankCtx "[(1, 1, 0), (2, 3, 1)]" 2 2 2 4 6]
  from t have "renderCDCScaledBitmap blankCtx [(1, 1, 0), (2, 3, 1)] 2 noOptions
     = Some (blankCtx\<lparr>fillStyle := ''#000000'',
                 painted := painted blankCtx
                   @ FillRect ''#ffffff'' 0 0 (7 * 2) (7 * 2)
                   # cdcStrokePixels 2 [(1, 1, 0), (2, 3, 1)]\<rparr>)"
    by (rule conjunct1)
  then have run: "renderCDCScaledBitmap blankCtx [(1, 1, 0), (2, 3, 1)] 2 noOptions
     = Some (blankCtx\<lparr>painted :=
         [FillRect ''#ffffff'' 0 0 14 14,
          FillRect ''#000000'' 2 11 1 1, FillRect ''#000000'' 2 10 1 1,
          FillRect ''#000000'' 3 9 1 1, FillRect ''#000000'' 3 8 1 1,
          FillRect ''#000000'' 4 7 1 1]\<rparr>)"
    unfolding px by (simp add: blankCtx_def)
  have rest: "Suc 1 < length (bresenhamLine 2 2 4 6)
   \<and> max \<bar>fst (bresenhamLine 2 2 4 6 ! Suc 1) - fst (bresenhamLine 2 2 4 6 ! 1)\<bar>
         \<bar>snd (bresenhamLine 2 2 4 6 ! Suc 1) - snd (bresenhamLine 2 2 4 6 ! 1)\<bar> = 1
   \<and> (1 :: nat) < length ([(1, 1, 0), (2, 3, 1)] :: Triplet list)
   \<and> (0 :: int) < snd (snd (([(1, 1, 0), (2, 3, 1)] :: Triplet list) ! 1))
   \<and> FillRect ''#000000'' 2 11 1 1 \<in> set (cdcStrokePixels 2 [(1, 1, 0), (2, 3, 1)])
   \<and> FillRect ''#000000'' 4 7 1 1 \<in> set (cdcStrokePixels 2 [(1, 1, 0), (2, 3, 1)])"
    unfolding px line by simp
  from rest show ?thesis by (rule conjI [OF run conjI [OF line]])
qed

end
